theory Spec2Isabelle
  imports Main "HOL-Library.Word"
begin

section \<open>Constants of jelling.c\<close>

type_synonym u8 = "8 word"
type_synonym u16 = "16 word"
type_synonym s32 = "32 word"

definition MAN_PATH :: string where "MAN_PATH = ''/''"
definition ADV_PATH :: string where "ADV_PATH = ''/adv''"
definition SVC_PATH :: string where "SVC_PATH = ''/svc''"
definition CHR_PATH :: string where "CHR_PATH = ''/svc/chr''"
definition SVC_UUID :: string where "SVC_UUID = ''B670003C-0079-465C-9BA7-6C0539CCD67F''"
definition CHR_UUID :: string where "CHR_UUID = ''F4186B06-D796-4327-AF39-AC22C50BDCA8''"

text \<open>
  The event types and key codes come from the kernel header
  \<^verbatim>\<open><linux/input-event-codes.h>\<close>, which \<^verbatim>\<open>jelling.c\<close> includes through
  \<^verbatim>\<open><linux/uinput.h>\<close>; the header is not a file of the repository. The values
  below are the ones of the kernel's stable user-space interface. \<^verbatim>\<open>ENOENT\<close> is
  the value of \<^verbatim>\<open><errno.h>\<close> on Linux.
\<close>

definition EV_SYN :: u16 where "EV_SYN = 0"
definition EV_KEY :: u16 where "EV_KEY = 1"
definition KEY_1 :: u16 where "KEY_1 = 2"
definition KEY_2 :: u16 where "KEY_2 = 3"
definition KEY_3 :: u16 where "KEY_3 = 4"
definition KEY_4 :: u16 where "KEY_4 = 5"
definition KEY_5 :: u16 where "KEY_5 = 6"
definition KEY_6 :: u16 where "KEY_6 = 7"
definition KEY_7 :: u16 where "KEY_7 = 8"
definition KEY_8 :: u16 where "KEY_8 = 9"
definition KEY_9 :: u16 where "KEY_9 = 10"
definition KEY_0 :: u16 where "KEY_0 = 11"
definition KEY_ENTER :: u16 where "KEY_ENTER = 28"
definition KEY_UNKNOWN :: u16 where "KEY_UNKNOWN = 240"
definition ENOENT :: int where "ENOENT = 2"

section \<open>The virtual input device\<close>

text \<open>
  \<^verbatim>\<open>struct input_event\<close> without its \<^verbatim>\<open>time\<close> field, which the designated
  initialisers of \<^verbatim>\<open>event\<close> leave zero in every event.
\<close>

record input_event =
  ev_type :: u16
  ev_code :: u16
  ev_value :: s32

text \<open>
  What a call does to the outside world is kept as a log of the system calls that
  took effect: a \<^verbatim>\<open>write\<close> of one event that the kernel accepted, or a
  \<^verbatim>\<open>usleep\<close> with its argument in microseconds.
\<close>

datatype syscall = Write input_event | Usleep nat

text \<open>
  The state behind the file descriptor \<^verbatim>\<open>uinput\<close>, with the \<^verbatim>\<open>errno\<close> of
  the process. The kernel's answers are an input of the model: \<open>script\<close> holds, for
  each \<^verbatim>\<open>write\<close> still to come, the \<^verbatim>\<open>errno\<close> it sets, with 0 for a write
  that succeeds; a write beyond the end of the script succeeds.
\<close>

record uinput =
  log :: "syscall list"
  script :: "nat list"
  errno :: nat

text \<open>
  \<^verbatim>\<open>write(input, &evts[i], sizeof(evts[i]))\<close>: the size written (24 bytes, the
  size of \<^verbatim>\<open>struct input_event\<close> on 64-bit Linux), or -1 with \<^verbatim>\<open>errno\<close> set.
\<close>

definition write_ev :: "uinput \<Rightarrow> input_event \<Rightarrow> int \<times> uinput" where
  "write_ev d e =
     (case script d of
        [] \<Rightarrow> (24, d\<lparr>log := log d @ [Write e]\<rparr>)
      | n # s \<Rightarrow>
          if n = 0 then (24, d\<lparr>log := log d @ [Write e], script := s\<rparr>)
          else (- 1, d\<lparr>script := s, errno := n\<rparr>))"

definition usleep :: "uinput \<Rightarrow> nat \<Rightarrow> uinput" where
  "usleep d n = d\<lparr>log := log d @ [Usleep n]\<rparr>"

section \<open>Key injection\<close>

text \<open>The characters \<^verbatim>\<open>'0'\<close> to \<^verbatim>\<open>'9'\<close> of the \<^verbatim>\<open>switch\<close> are the bytes 48 to 57.\<close>

definition char2key :: "u8 \<Rightarrow> u16" where
  "char2key c =
     (if c = 48 then KEY_0
      else if c = 49 then KEY_1
      else if c = 50 then KEY_2
      else if c = 51 then KEY_3
      else if c = 52 then KEY_4
      else if c = 53 then KEY_5
      else if c = 54 then KEY_6
      else if c = 55 then KEY_7
      else if c = 56 then KEY_8
      else if c = 57 then KEY_9
      else KEY_UNKNOWN)"

text \<open>The array \<^verbatim>\<open>evts\<close> of \<^verbatim>\<open>event\<close>: a sync event, then the key event.\<close>

definition evts :: "u16 \<Rightarrow> bool \<Rightarrow> input_event list" where
  "evts k down =
     [\<lparr>ev_type = EV_SYN, ev_code = 0, ev_value = 0\<rparr>,
      \<lparr>ev_type = EV_KEY, ev_code = k, ev_value = (if down then 1 else 0)\<rparr>]"

text \<open>
  The \<^verbatim>\<open>for\<close> loop of \<^verbatim>\<open>event\<close> over the rest of \<^verbatim>\<open>evts\<close>. \<open>Some r\<close> is the
  \<^verbatim>\<open>return -errno\<close> inside the loop, \<open>None\<close> is the loop running to its end
  (the array exhausted, or an event whose code is \<^verbatim>\<open>KEY_UNKNOWN\<close>).
\<close>

fun write_evts :: "uinput \<Rightarrow> input_event list \<Rightarrow> int option \<times> uinput" where
  "write_evts d [] = (None, d)"
| "write_evts d (e # es) =
     (if ev_code e \<noteq> KEY_UNKNOWN then
        (case write_ev d e of
           (r, d') \<Rightarrow> if r < 0 then (Some (- int (errno d')), d') else write_evts d' es)
      else (None, d))"

function event :: "uinput \<Rightarrow> u16 \<Rightarrow> bool \<Rightarrow> int \<times> uinput" where
  "event d k down =
     (case write_evts d (evts k down) of
        (Some r, d') \<Rightarrow> (r, d')
      | (None, d') \<Rightarrow>
          (let d'' = usleep d' 50000
           in if down then event d'' k False else (0, d'')))"
  by pat_completeness auto
termination
  by (relation "measure (\<lambda>(d, k, down). if down then 1 else 0)") auto

declare event.simps [simp del]

section \<open>Method calls on the characteristic\<close>

text \<open>
  A method-call message as the handlers read it: the byte array of its body, and the
  results of the sd-bus calls that read it. \<open>faults\<close> scripts the library's answers
  as the device's script does: one status for each sd-bus call still to come, a negative
  one for a call that fails with that value; a call beyond the end of the script succeeds.
\<close>

record sd_bus_message =
  bytes :: "u8 list"
  faults :: "int list"

text \<open>The status of the next sd-bus call, and the rest of the script.\<close>

definition next_status :: "int list \<Rightarrow> int \<times> int list" where
  "next_status s = (case s of [] \<Rightarrow> (0, []) | r # rs \<Rightarrow> (r, rs))"

text \<open>
  What a handler hands back to sd-bus: the negative value of a failed library call, an
  error reply with its name and message, or a method return with its signature. The
  three sd-bus functions below stand for the reply they ask the library to send; whether
  the bus then delivers it is outside the program.
\<close>

datatype outcome =
  Errno int
| Method_error string string
| Method_return string

definition sd_bus_reply_method_errorf :: "string \<Rightarrow> string \<Rightarrow> outcome" where
  "sd_bus_reply_method_errorf name message = Method_error name message"

definition sd_bus_error_set :: "string \<Rightarrow> string \<Rightarrow> outcome" where
  "sd_bus_error_set name message = Method_error name message"

definition sd_bus_reply_method_return :: "string \<Rightarrow> outcome" where
  "sd_bus_reply_method_return types = Method_return types"

text \<open>The validation loop of \<^verbatim>\<open>chr_writevalue\<close>: \<open>False\<close> is its early return.\<close>

fun validate :: "u8 list \<Rightarrow> bool" where
  "validate [] = True"
| "validate (b # bs) = (if char2key b = KEY_UNKNOWN then False else validate bs)"

text \<open>The emission loop \<^verbatim>\<open>for (i = 0; i < size && r >= 0; i++) r = event(...)\<close>.\<close>

fun emit :: "uinput \<Rightarrow> u8 list \<Rightarrow> int \<Rightarrow> int \<times> uinput" where
  "emit d [] r = (r, d)"
| "emit d (b # bs) r =
     (if r \<ge> 0 then (case event d (char2key b) True of (r', d') \<Rightarrow> emit d' bs r')
      else (r, d))"

text \<open>
  The first status read is the result of \<^verbatim>\<open>sd_bus_message_has_signature\<close>, the second
  the result of \<^verbatim>\<open>sd_bus_message_read_array\<close>, which is the value of \<^verbatim>\<open>r\<close> when
  the emission loop starts.
\<close>

definition chr_writevalue :: "sd_bus_message \<Rightarrow> uinput \<Rightarrow> outcome \<times> uinput" where
  "chr_writevalue m d =
     (case next_status (faults m) of (r, f) \<Rightarrow>
      if r < 0 then (Errno r, d)
      else case next_status f of (r, f') \<Rightarrow>
      if r < 0 then (Errno r, d)
      else let size = length (bytes m) in
      if size = 0 \<or> size > 32 then
        (sd_bus_reply_method_errorf ''org.bluez.Error.InvalidValueLength''
           ''Invalid value length'', d)
      else if \<not> validate (bytes m) then
        (sd_bus_reply_method_errorf ''org.bluez.Error.NotPermitted'' ''Invalid value'', d)
      else case emit d (bytes m) r of (r, d) \<Rightarrow>
      case (if r \<ge> 0 then event d KEY_ENTER True else (r, d)) of (r, d) \<Rightarrow>
      case (if r \<ge> 0 then event d KEY_UNKNOWN False else (r, d)) of (r, d) \<Rightarrow>
      if r < 0 then
        (sd_bus_reply_method_errorf ''org.bluez.Error.Failed'' ''Write failed'', d)
      else (sd_bus_reply_method_return '''', d))"

definition chr_notsup :: "sd_bus_message \<Rightarrow> uinput \<Rightarrow> outcome \<times> uinput" where
  "chr_notsup m d = (sd_bus_error_set ''org.bluez.Error.NotSupported'' ''Not supported'', d)"

definition meth_noop :: "sd_bus_message \<Rightarrow> uinput \<Rightarrow> outcome \<times> uinput" where
  "meth_noop m d = (sd_bus_reply_method_return '''', d)"

section \<open>Property getters\<close>

text \<open>
  The reply a getter fills in, as the sequence of things appended to it;
  \<open>reply_faults\<close> scripts the results of the sd-bus calls on it, as \<open>faults\<close> does.
\<close>

datatype arg = Str string | Bool bool

datatype item = Append string arg | Open_container char string | Close_container

record reply =
  appended :: "item list"
  reply_faults :: "int list"

definition append_item :: "reply \<Rightarrow> item \<Rightarrow> int \<times> reply" where
  "append_item m it =
     (case next_status (reply_faults m) of
        (r, f) \<Rightarrow>
          if r < 0 then (r, m\<lparr>reply_faults := f\<rparr>)
          else (r, m\<lparr>appended := appended m @ [it], reply_faults := f\<rparr>))"

definition sd_bus_message_append :: "reply \<Rightarrow> string \<Rightarrow> arg \<Rightarrow> int \<times> reply" where
  "sd_bus_message_append m types v = append_item m (Append types v)"

definition sd_bus_message_open_container :: "reply \<Rightarrow> char \<Rightarrow> string \<Rightarrow> int \<times> reply" where
  "sd_bus_message_open_container m c contents = append_item m (Open_container c contents)"

definition sd_bus_message_close_container :: "reply \<Rightarrow> int \<times> reply" where
  "sd_bus_message_close_container m = append_item m Close_container"

definition adv_props :: "string \<Rightarrow> reply \<Rightarrow> int \<times> reply" where
  "adv_props property reply =
     (if property = ''Type'' then sd_bus_message_append reply ''s'' (Str ''broadcast'')
      else if property = ''IncludeTxPower'' then sd_bus_message_append reply ''b'' (Bool True)
      else
        case (if property = ''ServiceUUIDs'' then Some ''s''
              else if property = ''SolicitUUIDs'' then Some ''s''
              else if property = ''ManufacturerData'' then Some ''{qay}''
              else if property = ''ServiceData'' then Some ''{say}''
              else None) of
          None \<Rightarrow> (- ENOENT, reply)
        | Some type \<Rightarrow>
            (case sd_bus_message_open_container reply CHR ''a'' type of (r, reply) \<Rightarrow>
             if r < 0 then (r, reply)
             else case (if property = ''ServiceUUIDs''
                        then sd_bus_message_append reply ''s'' (Str SVC_UUID)
                        else (r, reply)) of (r, reply) \<Rightarrow>
             if r < 0 then (r, reply)
             else sd_bus_message_close_container reply))"

definition svc_props :: "string \<Rightarrow> reply \<Rightarrow> int \<times> reply" where
  "svc_props property reply =
     (if property = ''UUID'' then sd_bus_message_append reply ''s'' (Str SVC_UUID)
      else if property = ''Primary'' then sd_bus_message_append reply ''b'' (Bool True)
      else
        case sd_bus_message_open_container reply CHR ''a'' ''o'' of (r, reply) \<Rightarrow>
        if r < 0 then (r, reply)
        else case (if property = ''Characteristics''
                   then sd_bus_message_append reply ''o'' (Str CHR_PATH)
                   else (r, reply)) of (r, reply) \<Rightarrow>
        if r < 0 then (r, reply)
        else sd_bus_message_close_container reply)"

definition chr_props :: "string \<Rightarrow> reply \<Rightarrow> int \<times> reply" where
  "chr_props property reply =
     (if property = ''UUID'' then sd_bus_message_append reply ''s'' (Str CHR_UUID)
      else if property = ''Service'' then sd_bus_message_append reply ''o'' (Str SVC_PATH)
      else if property = ''Notifying'' then sd_bus_message_append reply ''b'' (Bool False)
      else
        case (if property = ''Flags'' then Some ''s''
              else if property = ''Descriptors'' then Some ''o''
              else None) of
          None \<Rightarrow> (- ENOENT, reply)
        | Some type \<Rightarrow>
            (case sd_bus_message_open_container reply CHR ''a'' type of (r, reply) \<Rightarrow>
             if r < 0 then (r, reply)
             else case (if property = ''Flags''
                        then sd_bus_message_append reply type
                               (Str ''encrypt-authenticated-write'')
                        else (r, reply)) of (r, reply) \<Rightarrow>
             if r < 0 then (r, reply)
             else sd_bus_message_close_container reply))"

section \<open>The vtables\<close>

text \<open>
  An entry of a vtable, as the macros \<^verbatim>\<open>PROP(name, sig, func)\<close> and
  \<^verbatim>\<open>METH(name, sig, rsig, func)\<close> of the source build it.
\<close>

datatype vtable_entry =
  PROP_entry string string "string \<Rightarrow> reply \<Rightarrow> int \<times> reply"
| METH_entry string string string "sd_bus_message \<Rightarrow> uinput \<Rightarrow> outcome \<times> uinput"

definition adv_vtable :: "vtable_entry list" where
  "adv_vtable =
     [PROP_entry ''Type'' ''s'' adv_props,
      PROP_entry ''ServiceUUIDs'' ''as'' adv_props,
      PROP_entry ''ManufacturerData'' ''a{qay}'' adv_props,
      PROP_entry ''SolicitUUIDs'' ''as'' adv_props,
      PROP_entry ''ServiceData'' ''a{say}'' adv_props,
      PROP_entry ''IncludeTxPower'' ''b'' adv_props,
      METH_entry ''Release'' '''' '''' meth_noop]"

definition svc_vtable :: "vtable_entry list" where
  "svc_vtable =
     [PROP_entry ''UUID'' ''s'' svc_props,
      PROP_entry ''Primary'' ''b'' svc_props,
      PROP_entry ''Characteristics'' ''ao'' svc_props,
      PROP_entry ''Includes'' ''ao'' svc_props]"

definition chr_vtable :: "vtable_entry list" where
  "chr_vtable =
     [PROP_entry ''UUID'' ''s'' chr_props,
      PROP_entry ''Service'' ''o'' chr_props,
      PROP_entry ''Notifying'' ''b'' chr_props,
      PROP_entry ''Flags'' ''as'' chr_props,
      PROP_entry ''Descriptors'' ''ao'' chr_props,
      METH_entry ''ReadValue'' '''' ''ay'' chr_notsup,
      METH_entry ''WriteValue'' ''ay'' '''' chr_writevalue,
      METH_entry ''StartNotify'' '''' '''' chr_notsup,
      METH_entry ''StopNotify'' '''' '''' meth_noop]"

text \<open>
  sd-bus finds the entry of a vtable by the member name of the call. For a method it then
  compares the signature of the arguments of the call with the input signature that the
  entry declares, and runs the function of the entry only when the two agree. A call
  with no entry, or with other arguments than the declared ones, is answered by sd-bus
  itself without entering the program: \<open>Inl\<close> holds the name of that error reply.
\<close>

fun find_method ::
  "vtable_entry list \<Rightarrow> string \<Rightarrow>
     (string \<times> (sd_bus_message \<Rightarrow> uinput \<Rightarrow> outcome \<times> uinput)) option" where
  "find_method [] name = None"
| "find_method (METH_entry n sig rsig h # vt) name =
     (if n = name then Some (sig, h) else find_method vt name)"
| "find_method (PROP_entry n sig g # vt) name = find_method vt name"

definition dispatch_method ::
  "vtable_entry list \<Rightarrow> string \<Rightarrow> string \<Rightarrow> sd_bus_message \<Rightarrow> uinput \<Rightarrow>
     string + outcome \<times> uinput" where
  "dispatch_method vt name signature m d =
     (case find_method vt name of
        None \<Rightarrow> Inl ''org.freedesktop.DBus.Error.UnknownMethod''
      | Some (sig, h) \<Rightarrow>
          if signature = sig then Inr (h m d)
          else Inl ''org.freedesktop.DBus.Error.InvalidArgs'')"

fun find_property ::
  "vtable_entry list \<Rightarrow> string \<Rightarrow> (string \<Rightarrow> reply \<Rightarrow> int \<times> reply) option" where
  "find_property [] name = None"
| "find_property (PROP_entry n sig g # vt) name = (if n = name then Some g else find_property vt name)"
| "find_property (METH_entry n sig rsig h # vt) name = find_property vt name"

text \<open>
  A call whose argument is one byte array, the body that \<open>bytes\<close> of the message
  holds: its signature is \<^verbatim>\<open>ay\<close>. \<open>None\<close> is a call that sd-bus answers itself.
\<close>

definition call_method ::
  "vtable_entry list \<Rightarrow> string \<Rightarrow> sd_bus_message \<Rightarrow> uinput \<Rightarrow> (outcome \<times> uinput) option" where
  "call_method vt name m d =
     (case dispatch_method vt name ''ay'' m d of Inl e \<Rightarrow> None | Inr res \<Rightarrow> Some res)"

text \<open>
  The getter of a property is run for a name that has an entry; \<open>None\<close> is a name with
  no entry, for which no getter is entered.
\<close>

definition get_property ::
  "vtable_entry list \<Rightarrow> string \<Rightarrow> reply \<Rightarrow> (int \<times> reply) option" where
  "get_property vt name reply =
     (case find_property vt name of None \<Rightarrow> None | Some g \<Rightarrow> Some (g name reply))"


section \<open>Registration with the Bluetooth daemon\<close>

record method_call =
  destination :: string
  path :: string
  interface :: string
  member :: string
  types :: string
  arg_path :: string

text \<open>
  The bus connection: the asynchronous calls queued on it, in order, and the script of
  the results of the sd-bus calls still to come (on the connection and on the message
  being read), as \<open>faults\<close> above.
\<close>

record sd_bus =
  async_calls :: "method_call list"
  bus_faults :: "int list"

text \<open>The status of one sd-bus call that reads or moves in a message.\<close>

definition bus_read :: "sd_bus \<Rightarrow> int \<times> sd_bus" where
  "bus_read bus = (case next_status (bus_faults bus) of (r, f) \<Rightarrow> (r, bus\<lparr>bus_faults := f\<rparr>))"

definition sd_bus_call_method_async ::
  "sd_bus \<Rightarrow> string \<Rightarrow> string \<Rightarrow> string \<Rightarrow> string \<Rightarrow> string \<Rightarrow> string \<Rightarrow> int \<times> sd_bus" where
  "sd_bus_call_method_async bus dest p iface mem tys a =
     (case next_status (bus_faults bus) of
        (r, f) \<Rightarrow>
          if r < 0 then (r, bus\<lparr>bus_faults := f\<rparr>)
          else (r, bus\<lparr>async_calls := async_calls bus @
                        [\<lparr>destination = dest, path = p, interface = iface, member = mem,
                          types = tys, arg_path = a\<rparr>],
                      bus_faults := f\<rparr>))"

text \<open>
  One announcement of an object as \<^verbatim>\<open>on_bt_iface\<close> reads it: the object path and
  the names of its interfaces (the property dictionaries are skipped unread).
\<close>

type_synonym announcement = "string \<times> string list"

text \<open>
  The \<^verbatim>\<open>while\<close> loop of \<^verbatim>\<open>on_bt_iface\<close> over the interfaces left in the array.
  The result is the value \<^verbatim>\<open>r\<close> the function goes on with: negative for a failed call
  (inside the loop or in its condition), 0 at the end of the array. The four reads of the
  body are \<^verbatim>\<open>sd_bus_message_enter_container\<close>, \<^verbatim>\<open>sd_bus_message_read\<close>,
  \<^verbatim>\<open>sd_bus_message_skip\<close> and \<^verbatim>\<open>sd_bus_message_exit_container\<close>.
\<close>

fun ifaces_loop :: "string \<Rightarrow> string list \<Rightarrow> sd_bus \<Rightarrow> int \<times> sd_bus" where
  "ifaces_loop obj [] bus =
     (case bus_read bus of (r, bus) \<Rightarrow> if r < 0 then (r, bus) else (0, bus))"
| "ifaces_loop obj (iface # rest) bus =
     (case bus_read bus of (r, bus) \<Rightarrow>
      if r < 0 then (r, bus)
      else case bus_read bus of (r, bus) \<Rightarrow>
      if r < 0 then (r, bus)
      else case bus_read bus of (r, bus) \<Rightarrow>
      if r < 0 then (r, bus)
      else case bus_read bus of (r, bus) \<Rightarrow>
      if r < 0 then (r, bus)
      else case (if iface = ''org.bluez.GattManager1''
                 then sd_bus_call_method_async bus ''org.bluez'' obj iface
                        ''RegisterApplication'' ''oa{sv}'' MAN_PATH
                 else (r, bus)) of (r, bus) \<Rightarrow>
      if r < 0 then (r, bus)
      else case (if iface = ''org.bluez.LEAdvertisingManager1''
                 then sd_bus_call_method_async bus ''org.bluez'' obj iface
                        ''RegisterAdvertisement'' ''oa{sv}'' ADV_PATH
                 else (r, bus)) of (r, bus) \<Rightarrow>
      if r < 0 then (r, bus)
      else ifaces_loop obj rest bus)"

text \<open>
  The three reads in front of the loop are \<^verbatim>\<open>sd_bus_message_has_signature\<close>,
  \<^verbatim>\<open>sd_bus_message_read\<close> of the object path and
  \<^verbatim>\<open>sd_bus_message_enter_container\<close>; the one after it is
  \<^verbatim>\<open>sd_bus_message_exit_container\<close>.
\<close>

definition on_bt_iface :: "announcement \<Rightarrow> sd_bus \<Rightarrow> int \<times> sd_bus" where
  "on_bt_iface m bus =
     (case bus_read bus of (r, bus) \<Rightarrow>
      if r < 0 then (r, bus)
      else case bus_read bus of (r, bus) \<Rightarrow>
      if r < 0 then (r, bus)
      else case bus_read bus of (r, bus) \<Rightarrow>
      if r < 0 then (r, bus)
      else case ifaces_loop (fst m) (snd m) bus of (r, bus) \<Rightarrow>
      if r < 0 then (r, bus)
      else case bus_read bus of (r, bus) \<Rightarrow>
      if r < 0 then (r, bus)
      else (0, bus))"

text \<open>
  The \<^verbatim>\<open>while\<close> loop of \<^verbatim>\<open>setup_registration\<close> over the objects of the
  \<^verbatim>\<open>GetManagedObjects\<close> reply, with the two checks after it. \<open>Inl\<close> is
  \<^verbatim>\<open>error(EXIT_FAILURE, ...)\<close> with its message: the process exits.
\<close>

fun objects_loop :: "announcement list \<Rightarrow> sd_bus \<Rightarrow> string + sd_bus" where
  "objects_loop [] bus =
     (case bus_read bus of (r, bus) \<Rightarrow>
      if r < 0 then Inl ''Error parsing bluez results''
      else case bus_read bus of (r, bus) \<Rightarrow>
      if r < 0 then Inl ''Error parsing bluez results''
      else Inr bus)"
| "objects_loop (m # ms) bus =
     (case bus_read bus of (r, bus) \<Rightarrow>
      if r < 0 then Inl ''Error parsing bluez results''
      else case on_bt_iface m bus of (r, bus) \<Rightarrow>
      if r < 0 then Inl ''Error parsing bluez results''
      else case bus_read bus of (r, bus) \<Rightarrow>
      if r < 0 then Inl ''Error parsing bluez results''
      else objects_loop ms bus)"

text \<open>
  The three calls in front of the loop are \<^verbatim>\<open>sd_bus_add_match\<close>,
  \<^verbatim>\<open>sd_bus_call_method\<close> of \<^verbatim>\<open>GetManagedObjects\<close>, whose reply holds
  \<open>objects\<close>, and \<^verbatim>\<open>sd_bus_message_enter_container\<close>.
\<close>

definition setup_registration :: "announcement list \<Rightarrow> sd_bus \<Rightarrow> string + sd_bus" where
  "setup_registration objects bus =
     (case bus_read bus of (r, bus) \<Rightarrow>
      if r < 0 then Inl ''Error registering for bluetooth interfaces''
      else case bus_read bus of (r, bus) \<Rightarrow>
      if r < 0 then Inl ''Error calling bluez ObjectManager''
      else case bus_read bus of (r, bus) \<Rightarrow>
      if r < 0 then Inl ''Error parsing bluez results''
      else objects_loop objects bus)"

text \<open>
  The loop of \<^verbatim>\<open>main\<close>: sd-bus runs \<^verbatim>\<open>on_bt_iface\<close>, the callback of the match
  installed by \<^verbatim>\<open>setup_registration\<close>, on each \<^verbatim>\<open>InterfacesAdded\<close> signal; the
  value the callback returns goes to sd-bus, and the loop goes on with the next signal.
\<close>

fun process_signals :: "announcement list \<Rightarrow> sd_bus \<Rightarrow> sd_bus" where
  "process_signals [] bus = bus"
| "process_signals (m # ms) bus = process_signals ms (snd (on_bt_iface m bus))"

text \<open>
  The registration side of a whole run of \<^verbatim>\<open>main\<close>: the startup enumeration, then
  the signals that arrive while the loop runs.
\<close>

definition lifetime :: "announcement list \<Rightarrow> announcement list \<Rightarrow> sd_bus \<Rightarrow> string + sd_bus" where
  "lifetime objects signals bus =
     (case setup_registration objects bus of
        Inl e \<Rightarrow> Inl e
      | Inr bus \<Rightarrow> Inr (process_signals signals bus))"

section \<open>The emission of a call as a sequence of steps\<close>

definition sync_event :: input_event where
  "sync_event = \<lparr>ev_type = EV_SYN, ev_code = 0, ev_value = 0\<rparr>"

definition key_event :: "u16 \<Rightarrow> bool \<Rightarrow> input_event" where
  "key_event k down = \<lparr>ev_type = EV_KEY, ev_code = k, ev_value = (if down then 1 else 0)\<rparr>"

text \<open>The events written to the device, out of a log.\<close>

fun writes :: "syscall list \<Rightarrow> input_event list" where
  "writes [] = []"
| "writes (Write e # as) = e # writes as"
| "writes (Usleep n # as) = writes as"

text \<open>
  Running a list of system calls in order on the device, up to the first write that
  fails: the result is 0, or minus the \<^verbatim>\<open>errno\<close> of the failed write.
\<close>

fun perform :: "uinput \<Rightarrow> syscall list \<Rightarrow> int \<times> uinput" where
  "perform d [] = (0, d)"
| "perform d (Write e # as) =
     (case write_ev d e of
        (r, d') \<Rightarrow> if r < 0 then (- int (errno d'), d') else perform d' as)"
| "perform d (Usleep n # as) = perform (usleep d n) as"

text \<open>
  The system calls of one pass through the body of \<^verbatim>\<open>event\<close>, and of a whole
  call of it: a press is followed by its release.
\<close>

definition step :: "u16 \<Rightarrow> bool \<Rightarrow> syscall list" where
  "step k down =
     (if k = KEY_UNKNOWN then [Write sync_event, Usleep 50000]
      else [Write sync_event, Write (key_event k down), Usleep 50000])"

definition steps :: "u16 \<Rightarrow> bool \<Rightarrow> syscall list" where
  "steps k down = (if down then step k True @ step k False else step k False)"

text \<open>A byte of the ASCII range \<^verbatim>\<open>'0'\<close> to \<^verbatim>\<open>'9'\<close>.\<close>

definition is_digit :: "u8 \<Rightarrow> bool" where
  "is_digit b = (48 \<le> b \<and> b \<le> 57)"

text \<open>
  Everything a call of \<^verbatim>\<open>chr_writevalue\<close> sets out to do, once the bytes have
  passed validation: the digits, Enter, and the last call of \<^verbatim>\<open>event\<close> with
  \<^verbatim>\<open>KEY_UNKNOWN\<close>.
\<close>

definition plan :: "u8 list \<Rightarrow> syscall list" where
  "plan bs =
     concat (map (\<lambda>b. steps (char2key b) True) bs) @ steps KEY_ENTER True @
     steps KEY_UNKNOWN False"

text \<open>The two sd-bus calls by which \<^verbatim>\<open>chr_writevalue\<close> reads its message succeed.\<close>

definition readable :: "sd_bus_message \<Rightarrow> bool" where
  "readable m = (\<forall>r\<in>set (take 2 (faults m)). 0 \<le> r)"

text \<open>A value the characteristic accepts: 1 to 32 ASCII digits.\<close>

definition well_formed :: "u8 list \<Rightarrow> bool" where
  "well_formed bs = (1 \<le> length bs \<and> length bs \<le> 32 \<and> (\<forall>b\<in>set bs. is_digit b))"

text \<open>
  The hold of a key: the press, 50 ms of sleep, the release, 50 ms of sleep, each event
  after a sync event.
\<close>

definition press_release :: "u16 \<Rightarrow> syscall list" where
  "press_release k =
     [Write sync_event, Write (key_event k True), Usleep 50000,
      Write sync_event, Write (key_event k False), Usleep 50000]"

text \<open>The digits in the order of the bytes, each pressed and released, then Enter.\<close>

definition typed :: "u8 list \<Rightarrow> syscall list" where
  "typed bs = concat (map (\<lambda>b. press_release (char2key b)) bs) @ press_release KEY_ENTER"

text \<open>
  The key of a digit in the numbering of the keyboard, written without the table of
  \<^verbatim>\<open>char2key\<close>: the keys 1 to 9 have the codes 2 to 10 in this order, and the key 0,
  which stands to the right of 9, has the code 11.
\<close>

definition digit_key :: "u8 \<Rightarrow> u16" where
  "digit_key b = (if b = 48 then 11 else ucast b - 47)"

text \<open>
  What typing a value means: for each byte in order the hold of the key of that digit,
  then the hold of Enter.
\<close>

definition typed_digits :: "u8 list \<Rightarrow> syscall list" where
  "typed_digits bs =
     concat (map (\<lambda>b. press_release (digit_key b)) bs) @ press_release KEY_ENTER"

text \<open>The key events written, out of a log.\<close>

definition keys :: "syscall list \<Rightarrow> input_event list" where
  "keys l = filter (\<lambda>e. ev_type e = EV_KEY) (writes l)"

text \<open>The events that follow the last key event of a sequence.\<close>

definition after_last_key :: "input_event list \<Rightarrow> input_event list" where
  "after_last_key es = rev (takeWhile (\<lambda>e. ev_type e \<noteq> EV_KEY) (rev es))"

text \<open>
  The part of a sequence of system calls that comes before its write number \<open>n\<close>,
  counting from 0.
\<close>

fun upto_write :: "nat \<Rightarrow> syscall list \<Rightarrow> syscall list" where
  "upto_write n [] = []"
| "upto_write n (Usleep t # as) = Usleep t # upto_write n as"
| "upto_write 0 (Write e # as) = []"
| "upto_write (Suc n) (Write e # as) = Write e # upto_write n as"

text \<open>
  Every key event of the sequence has a sync event directly in front of it; \<open>prev\<close>
  tells whether a sync event stands in front of the sequence.
\<close>

fun sync_before :: "bool \<Rightarrow> input_event list \<Rightarrow> bool" where
  "sync_before prev [] = True"
| "sync_before prev (e # es) =
     ((ev_type e = EV_KEY \<longrightarrow> prev) \<and> sync_before (ev_type e = EV_SYN) es)"

text \<open>The events that were written between two states of the device.\<close>

definition emitted :: "uinput \<Rightarrow> uinput \<Rightarrow> input_event list" where
  "emitted d d' = writes (drop (length (log d)) (log d'))"

section \<open>Reading a property\<close>

text \<open>No sd-bus call on the reply fails.\<close>

definition ok_reply :: "reply \<Rightarrow> bool" where
  "ok_reply m = (\<forall>r\<in>set (reply_faults m). 0 \<le> r)"

text \<open>
  A read of the property \<open>name\<close> through the vtable succeeds and appends exactly
  \<open>items\<close> to the reply.
\<close>

definition reads_as :: "vtable_entry list \<Rightarrow> string \<Rightarrow> reply \<Rightarrow> item list \<Rightarrow> bool" where
  "reads_as vt name reply items =
     (case get_property vt name reply of
        None \<Rightarrow> False
      | Some (r, reply') \<Rightarrow> 0 \<le> r \<and> appended reply' = appended reply @ items)"

section \<open>The registration calls of an announcement\<close>

text \<open>No sd-bus call on the connection or on the message being read fails.\<close>

definition ok_bus :: "sd_bus \<Rightarrow> bool" where
  "ok_bus bus = (\<forall>r\<in>set (bus_faults bus). 0 \<le> r)"

text \<open>
  The calls that go with one interface name of an object: a registration of the
  application for the GATT manager, a registration of the advertisement for the
  advertising manager, nothing for any other interface.
\<close>

definition register :: "string \<Rightarrow> string \<Rightarrow> method_call list" where
  "register obj iface =
     (if iface = ''org.bluez.GattManager1''
      then [\<lparr>destination = ''org.bluez'', path = obj, interface = iface,
             member = ''RegisterApplication'', types = ''oa{sv}'', arg_path = ''/''\<rparr>]
      else []) @
     (if iface = ''org.bluez.LEAdvertisingManager1''
      then [\<lparr>destination = ''org.bluez'', path = obj, interface = iface,
             member = ''RegisterAdvertisement'', types = ''oa{sv}'', arg_path = ''/adv''\<rparr>]
      else [])"

text \<open>One call for each interface of each announcement, in the order of arrival.\<close>

definition announced :: "announcement list \<Rightarrow> method_call list" where
  "announced ms = concat (map (\<lambda>m. concat (map (register (fst m)) (snd m))) ms)"

text \<open>The result of the next sd-bus call, and the connection after it.\<close>

definition status :: "sd_bus \<Rightarrow> int" where
  "status bus = fst (next_status (bus_faults bus))"

definition advance :: "sd_bus \<Rightarrow> sd_bus" where
  "advance bus = bus\<lparr>bus_faults := snd (next_status (bus_faults bus))\<rparr>"

section \<open>Properties\<close>

lemmas key_defs =
  KEY_0_def KEY_1_def KEY_2_def KEY_3_def KEY_4_def KEY_5_def KEY_6_def
  KEY_7_def KEY_8_def KEY_9_def KEY_ENTER_def KEY_UNKNOWN_def

subsection \<open>Validation\<close>

lemma char2key_unknown_iff: "char2key b = KEY_UNKNOWN \<longleftrightarrow> \<not> is_digit b"
proof -
  have "is_digit b \<longleftrightarrow> unat b \<in> {48, 49, 50, 51, 52, 53, 54, 55, 56, 57}"
    unfolding is_digit_def word_le_nat_alt by (simp; arith)
  also have "\<dots> \<longleftrightarrow> b \<in> {48, 49, 50, 51, 52, 53, 54, 55, 56, 57}"
    by (simp add: word_unat_eq_iff [of b])
  finally show ?thesis
    by (auto simp: char2key_def key_defs)
qed

lemma validate_iff: "validate bs \<longleftrightarrow> (\<forall>b\<in>set bs. is_digit b)"
  by (induction bs) (simp_all add: char2key_unknown_iff)

subsection \<open>The loops as sequences of system calls\<close>

lemma perform_nonpos: "fst (perform d as) \<le> 0"
proof (induction d as rule: perform.induct)
  case (2 d e as)
  then show ?case
    by (auto simp: write_ev_def split: list.splits if_splits prod.splits)
qed simp_all

lemma perform_append:
  "perform d (as @ bs) =
     (case perform d as of (r, d') \<Rightarrow> if r < 0 then (r, d') else perform d' bs)"
proof (induction d as rule: perform.induct)
  case (2 d e as)
  then show ?case
    by (auto simp: write_ev_def split: list.splits if_splits prod.splits)
qed simp_all

lemma event_release: "event d k False = perform d (step k False)"
  by (subst event.simps)
     (auto simp: evts_def step_def sync_event_def key_event_def key_defs write_ev_def
           split: list.splits if_splits prod.splits)

lemma event_press:
  "event d k True =
     (case perform d (step k True) of
        (r, d') \<Rightarrow> if r < 0 then (r, d') else event d' k False)"
  by (subst event.simps)
     (auto simp: evts_def step_def sync_event_def key_event_def key_defs write_ev_def
           split: list.splits if_splits prod.splits)

lemma event_perform: "event d k down = perform d (steps k down)"
proof (cases down)
  case True
  then show ?thesis
    by (simp add: steps_def event_press perform_append event_release split: prod.splits)
next
  case False
  then show ?thesis
    by (simp add: steps_def event_release)
qed

lemma emit_perform:
  "0 \<le> r \<Longrightarrow> bs \<noteq> [] \<Longrightarrow>
     emit d bs r = perform d (concat (map (\<lambda>b. steps (char2key b) True) bs))"
proof (induction bs arbitrary: d r)
  case Nil
  then show ?case by simp
next
  case (Cons b bs)
  obtain r' d' where e: "perform d (steps (char2key b) True) = (r', d')"
    by (cases "perform d (steps (char2key b) True)")
  have le: "r' \<le> 0" using perform_nonpos [of d "steps (char2key b) True"] e by simp
  show ?case
  proof (cases "r' < 0")
    case True
    then have "emit d' bs r' = (r', d')" by (cases bs) simp_all
    with True e Cons.prems show ?thesis
      by (simp add: event_perform perform_append)
  next
    case False
    with le have z: "r' = 0" by simp
    show ?thesis
    proof (cases "bs = []")
      case True
      with z e Cons.prems show ?thesis by (simp add: event_perform)
    next
      case False
      with z e Cons.prems Cons.IH [of r' d'] show ?thesis
        by (simp add: event_perform perform_append)
    qed
  qed
qed

lemma next_status_readable:
  "readable m \<Longrightarrow> next_status (faults m) = (r, f) \<Longrightarrow> next_status f = (r', f') \<Longrightarrow>
     0 \<le> r \<and> 0 \<le> r'"
  by (auto simp: readable_def next_status_def split: list.splits)

lemma chr_writevalue_perform:
  assumes "readable m" and "well_formed (bytes m)"
  shows "chr_writevalue m d =
     (case perform d (plan (bytes m)) of
        (r, d') \<Rightarrow>
          (if r < 0 then Method_error ''org.bluez.Error.Failed'' ''Write failed''
           else Method_return '''', d'))"
proof -
  obtain r f where a: "next_status (faults m) = (r, f)" by (cases "next_status (faults m)")
  obtain r' f' where b: "next_status f = (r', f')" by (cases "next_status f")
  from next_status_readable [OF assms(1) a b] have r: "0 \<le> r" "0 \<le> r'" by simp_all
  from assms(2) have ne: "bytes m \<noteq> []" and len: "length (bytes m) \<le> 32"
    and v: "validate (bytes m)"
    by (auto simp: well_formed_def validate_iff)
  show ?thesis
    unfolding chr_writevalue_def plan_def
    using a b r ne len v perform_nonpos
    by (auto simp: emit_perform event_perform perform_append Let_def
          sd_bus_reply_method_errorf_def sd_bus_reply_method_return_def
          split: prod.splits)
qed

lemma call_WriteValue: "call_method chr_vtable ''WriteValue'' m d = Some (chr_writevalue m d)"
  by (simp add: call_method_def dispatch_method_def chr_vtable_def)

lemma writes_append: "writes (as @ bs) = writes as @ writes bs"
  by (induction as rule: writes.induct) simp_all

lemma steps_digit: "is_digit b \<Longrightarrow> steps (char2key b) True = press_release (char2key b)"
  by (simp add: steps_def step_def press_release_def char2key_unknown_iff)

lemma steps_enter: "steps KEY_ENTER True = press_release KEY_ENTER"
  by (simp add: steps_def step_def press_release_def key_defs)

lemma steps_unknown: "steps KEY_UNKNOWN False = [Write sync_event, Usleep 50000]"
  by (simp add: steps_def step_def)

lemma plan_typed:
  "\<forall>b\<in>set bs. is_digit b \<Longrightarrow> plan bs = typed bs @ [Write sync_event, Usleep 50000]"
proof -
  assume "\<forall>b\<in>set bs. is_digit b"
  then have "map (\<lambda>b. steps (char2key b) True) bs = map (\<lambda>b. press_release (char2key b)) bs"
    by (simp add: steps_digit)
  then have c: "concat (map (\<lambda>b. steps (char2key b) True) bs) =
      concat (map (\<lambda>b. press_release (char2key b)) bs)"
    by (rule arg_cong)
  show ?thesis
    unfolding plan_def typed_def c steps_enter steps_unknown by simp
qed

lemma length_writes_typed: "length (writes (typed bs)) = 4 * length bs + 4"
  by (induction bs) (simp_all add: typed_def press_release_def writes_append)

lemma perform_ok:
  "\<forall>n\<in>set (script d). n = 0 \<Longrightarrow>
     perform d as = (0, d\<lparr>log := log d @ as, script := drop (length (writes as)) (script d)\<rparr>)"
proof (induction as arbitrary: d)
  case Nil
  then show ?case by simp
next
  case (Cons a as)
  show ?case
  proof (cases a)
    case (Write e)
    show ?thesis
    proof (cases "script d")
      case Nil
      with Write Cons.IH [of "d\<lparr>log := log d @ [Write e]\<rparr>"] show ?thesis
        by (simp add: write_ev_def)
    next
      case (Cons n s)
      with Cons.prems have "n = 0" and "\<forall>n\<in>set s. n = 0" by simp_all
      with Write Cons Cons.IH [of "d\<lparr>log := log d @ [Write e], script := s\<rparr>"] show ?thesis
        by (simp add: write_ev_def)
    qed
  next
    case (Usleep t)
    with Cons.prems Cons.IH [of "usleep d t"] show ?thesis
      by (simp add: usleep_def)
  qed
qed

lemma perform_success_log:
  "perform d as = (r, d') \<Longrightarrow> 0 \<le> r \<Longrightarrow> log d' = log d @ as"
proof (induction as arbitrary: d)
  case Nil
  then show ?case by simp
next
  case (Cons a as)
  show ?case
  proof (cases a)
    case (Write e)
    obtain r1 d1 where w: "write_ev d e = (r1, d1)" by (cases "write_ev d e")
    show ?thesis
    proof (cases "r1 < 0")
      case True
      with w have "errno d1 \<noteq> 0"
        by (auto simp: write_ev_def split: list.splits if_splits)
      with True w Write Cons.prems show ?thesis by simp
    next
      case False
      with w have l: "log d1 = log d @ [Write e]"
        by (auto simp: write_ev_def split: list.splits if_splits)
      from False w Write Cons.prems have "perform d1 as = (r, d')" by simp
      from Cons.IH [OF this Cons.prems(2)] l Write show ?thesis by simp
    qed
  next
    case (Usleep t)
    with Cons.prems have "perform (usleep d t) as = (r, d')" by simp
    from Cons.IH [OF this Cons.prems(2)] Usleep show ?thesis by (simp add: usleep_def)
  qed
qed

lemma perform_fail:
  "script d = replicate n 0 @ Suc e # rest \<Longrightarrow> n < length (writes as) \<Longrightarrow>
     perform d as =
       (- int (Suc e), d\<lparr>log := log d @ upto_write n as, script := rest, errno := Suc e\<rparr>)"
proof (induction n as arbitrary: d rule: upto_write.induct)
  case (1 n)
  then show ?case by simp
next
  case (2 n t as)
  from 2 show ?case by (simp add: usleep_def)
next
  case (3 e' as)
  then show ?case by (simp add: write_ev_def)
next
  case (4 n e' as)
  from 4 show ?case by (simp add: write_ev_def)
qed

lemma writes_upto_write: "writes (upto_write n as) = take n (writes as)"
  by (induction n as rule: upto_write.induct) simp_all

lemma perform_log: "\<exists>n. log (snd (perform d as)) = log d @ take n as"
proof (induction as arbitrary: d)
  case Nil
  then show ?case by simp
next
  case (Cons a as)
  show ?case
  proof (cases a)
    case (Write e)
    show ?thesis
    proof (cases "fst (write_ev d e) < 0")
      case True
      with Write have "log (snd (perform d (a # as))) = log d @ take 0 (a # as)"
        by (auto simp: write_ev_def split: list.splits if_splits prod.splits)
      then show ?thesis by blast
    next
      case False
      then obtain d' where w: "write_ev d e = (24, d')" and l: "log d' = log d @ [Write e]"
        by (auto simp: write_ev_def split: list.splits if_splits prod.splits)
      from Cons.IH [of d'] obtain n where "log (snd (perform d' as)) = log d' @ take n as"
        by blast
      with w l Write have "log (snd (perform d (a # as))) = log d @ take (Suc n) (a # as)"
        by simp
      then show ?thesis by blast
    qed
  next
    case (Usleep t)
    from Cons.IH [of "usleep d t"] obtain n
      where "log (snd (perform (usleep d t) as)) = log (usleep d t) @ take n as"
      by blast
    with Usleep have "log (snd (perform d (a # as))) = log d @ take (Suc n) (a # as)"
      by (simp add: usleep_def)
    then show ?thesis by blast
  qed
qed

lemma sync_before_mono: "sync_before False es \<Longrightarrow> sync_before p es"
  by (cases es) auto

lemma sync_before_append:
  "sync_before p as \<Longrightarrow> sync_before False bs \<Longrightarrow> sync_before p (as @ bs)"
  by (induction as arbitrary: p) (auto intro: sync_before_mono)

lemma sync_before_take: "sync_before p es \<Longrightarrow> sync_before p (take n es)"
proof (induction es arbitrary: p n)
  case Nil
  then show ?case by simp
next
  case (Cons e es)
  then show ?case by (cases n) auto
qed

lemma writes_take: "\<exists>j. writes (take n as) = take j (writes as)"
proof (induction as arbitrary: n rule: writes.induct)
  case 1
  then show ?case by simp
next
  case (2 e as)
  show ?case
  proof (cases n)
    case 0
    then show ?thesis by simp
  next
    case (Suc k)
    from 2 [of k] obtain j where "writes (take k as) = take j (writes as)" by blast
    with Suc have "writes (take n (Write e # as)) = take (Suc j) (writes (Write e # as))"
      by simp
    then show ?thesis by blast
  qed
next
  case (3 t as)
  show ?case
  proof (cases n)
    case 0
    then show ?thesis by simp
  next
    case (Suc k)
    from 3 [of k] obtain j where "writes (take k as) = take j (writes as)" by blast
    with Suc have "writes (take n (Usleep t # as)) = take j (writes (Usleep t # as))"
      by simp
    then show ?thesis by blast
  qed
qed

lemma sync_before_steps: "sync_before False (writes (steps k down))"
  by (simp add: steps_def step_def sync_event_def key_event_def EV_SYN_def EV_KEY_def)

lemma sync_before_plan: "sync_before False (writes (plan bs))"
proof -
  have "sync_before False (writes (concat (map (\<lambda>b. steps (char2key b) True) bs)))"
    by (induction bs) (simp_all add: writes_append sync_before_append sync_before_steps)
  then show ?thesis
    by (simp add: plan_def writes_append sync_before_append sync_before_steps)
qed

lemma emitted_perform: "sync_before False (writes as) \<Longrightarrow> sync_before False (emitted d (snd (perform d as)))"
proof -
  assume s: "sync_before False (writes as)"
  obtain n where "log (snd (perform d as)) = log d @ take n as"
    using perform_log by blast
  then have "emitted d (snd (perform d as)) = writes (take n as)"
    by (simp add: emitted_def)
  moreover obtain j where "writes (take n as) = take j (writes as)"
    using writes_take by blast
  ultimately show ?thesis using s by (simp add: sync_before_take)
qed
lemma keys_append: "keys (as @ bs) = keys as @ keys bs"
  by (simp add: keys_def writes_append)

lemma keys_press_release: "keys (press_release k) = [key_event k True, key_event k False]"
  by (simp add: keys_def press_release_def sync_event_def key_event_def EV_SYN_def EV_KEY_def)

lemma keys_sentinel: "keys [Write sync_event, Usleep 50000] = []"
  by (simp add: keys_def sync_event_def EV_SYN_def EV_KEY_def)

lemma keys_typed:
  "keys (typed bs) =
     concat (map (\<lambda>b. [key_event (char2key b) True, key_event (char2key b) False]) bs) @
     [key_event KEY_ENTER True, key_event KEY_ENTER False]"
proof -
  have "keys (concat (map (\<lambda>b. press_release (char2key b)) bs)) =
      concat (map (\<lambda>b. [key_event (char2key b) True, key_event (char2key b) False]) bs)"
  proof (induction bs)
    case Nil
    then show ?case by (simp add: keys_def)
  next
    case (Cons b bs)
    then show ?case by (simp add: keys_append keys_press_release)
  qed
  then show ?thesis
    by (simp add: typed_def keys_append keys_press_release)
qed

lemma is_digit_cases: "is_digit b \<longleftrightarrow> b \<in> {48, 49, 50, 51, 52, 53, 54, 55, 56, 57}"
proof -
  have "is_digit b \<longleftrightarrow> unat b \<in> {48, 49, 50, 51, 52, 53, 54, 55, 56, 57}"
    unfolding is_digit_def word_le_nat_alt by (simp; arith)
  also have "\<dots> \<longleftrightarrow> b \<in> {48, 49, 50, 51, 52, 53, 54, 55, 56, 57}"
    by (simp add: word_unat_eq_iff [of b])
  finally show ?thesis .
qed

lemma char2key_digit_key: "is_digit b \<Longrightarrow> char2key b = digit_key b"
  by (auto simp: is_digit_cases char2key_def digit_key_def key_defs)

lemma typed_digit_keys: "\<forall>b\<in>set bs. is_digit b \<Longrightarrow> typed bs = typed_digits bs"
proof -
  assume "\<forall>b\<in>set bs. is_digit b"
  then have "map (\<lambda>b. press_release (char2key b)) bs = map (\<lambda>b. press_release (digit_key b)) bs"
    by (simp add: char2key_digit_key)
  then have "concat (map (\<lambda>b. press_release (char2key b)) bs) =
      concat (map (\<lambda>b. press_release (digit_key b)) bs)"
    by (rule arg_cong)
  then show ?thesis by (simp add: typed_def typed_digits_def)
qed

lemma keys_typed_digits:
  "keys (typed_digits bs) =
     concat (map (\<lambda>b. [key_event (digit_key b) True, key_event (digit_key b) False]) bs) @
     [key_event KEY_ENTER True, key_event KEY_ENTER False]"
proof -
  have "keys (concat (map (\<lambda>b. press_release (digit_key b)) bs)) =
      concat (map (\<lambda>b. [key_event (digit_key b) True, key_event (digit_key b) False]) bs)"
  proof (induction bs)
    case Nil
    then show ?case by (simp add: keys_def)
  next
    case (Cons b bs)
    then show ?case by (simp add: keys_append keys_press_release)
  qed
  then show ?thesis
    by (simp add: typed_digits_def keys_append keys_press_release)
qed

lemma chr_writevalue_return:
  assumes "chr_writevalue m d = (Method_return s, d')"
  shows "readable m \<and> well_formed (bytes m)"
proof -
  obtain r f where a: "next_status (faults m) = (r, f)" by (cases "next_status (faults m)")
  obtain r' f' where b: "next_status f = (r', f')" by (cases "next_status f")
  from assms a b have r: "0 \<le> r" "0 \<le> r'"
    and l: "length (bytes m) \<noteq> 0" "length (bytes m) \<le> 32" and v: "validate (bytes m)"
    by (auto simp: chr_writevalue_def sd_bus_reply_method_errorf_def Let_def
             split: if_splits)
  from a b r have "readable m"
    by (auto simp: readable_def next_status_def split: list.splits)
  with l v show ?thesis
    by (cases "bytes m") (simp_all add: well_formed_def validate_iff)
qed

lemma chr_writevalue_ok:
  assumes "readable m" and "well_formed (bytes m)" and "\<forall>n\<in>set (script d). n = 0"
  shows "chr_writevalue m d =
     (Method_return '''',
      d\<lparr>log := log d @ typed (bytes m) @ [Write sync_event, Usleep 50000],
        script := drop (4 * length (bytes m) + 5) (script d)\<rparr>)"
proof -
  from assms(2) have dig: "\<forall>b\<in>set (bytes m). is_digit b" by (simp add: well_formed_def)
  have p: "plan (bytes m) = typed (bytes m) @ [Write sync_event, Usleep 50000]"
    by (rule plan_typed [OF dig])
  have "length (writes (plan (bytes m))) = 4 * length (bytes m) + 5"
    by (simp add: p writes_append length_writes_typed)
  with perform_ok [OF assms(3), of "plan (bytes m)"] show ?thesis
    by (simp add: chr_writevalue_perform [OF assms(1,2)] p)
qed
lemma chr_writevalue_unchanged:
  assumes "\<not> (readable m \<and> well_formed (bytes m))"
  shows "snd (chr_writevalue m d) = d"
proof -
  obtain r f where a: "next_status (faults m) = (r, f)" by (cases "next_status (faults m)")
  obtain r' f' where b: "next_status f = (r', f')" by (cases "next_status f")
  show ?thesis
  proof (cases "0 \<le> r \<and> 0 \<le> r'")
    case False
    with a b show ?thesis by (auto simp: chr_writevalue_def)
  next
    case True
    with a b have "readable m"
      by (auto simp: readable_def next_status_def split: list.splits)
    with assms have "\<not> well_formed (bytes m)" by simp
    then have "length (bytes m) = 0 \<or> 32 < length (bytes m) \<or> \<not> validate (bytes m)"
      by (cases "bytes m") (auto simp: well_formed_def validate_iff)
    with True a b show ?thesis by (auto simp: chr_writevalue_def)
  qed
qed

lemma emitted_self: "emitted d d = []"
  by (simp add: emitted_def)


subsection \<open>Property getters\<close>

lemmas getter_defs =
  sd_bus_message_append_def sd_bus_message_open_container_def
  sd_bus_message_close_container_def append_item_def next_status_def

lemma adv_Type: "ok_reply m \<Longrightarrow> reads_as adv_vtable ''Type'' m [Append ''s'' (Str ''broadcast'')]"
  by (auto simp: ok_reply_def reads_as_def get_property_def adv_vtable_def adv_props_def
        getter_defs split: list.splits)

lemma adv_IncludeTxPower:
  "ok_reply m \<Longrightarrow> reads_as adv_vtable ''IncludeTxPower'' m [Append ''b'' (Bool True)]"
  by (auto simp: ok_reply_def reads_as_def get_property_def adv_vtable_def adv_props_def
        getter_defs split: list.splits)

lemma adv_ServiceUUIDs:
  "ok_reply m \<Longrightarrow> reads_as adv_vtable ''ServiceUUIDs'' m
     [Open_container CHR ''a'' ''s'', Append ''s'' (Str SVC_UUID), Close_container]"
  by (auto simp: ok_reply_def reads_as_def get_property_def adv_vtable_def adv_props_def
        getter_defs split: list.splits)

lemma adv_SolicitUUIDs:
  "ok_reply m \<Longrightarrow> reads_as adv_vtable ''SolicitUUIDs'' m
     [Open_container CHR ''a'' ''s'', Close_container]"
  by (auto simp: ok_reply_def reads_as_def get_property_def adv_vtable_def adv_props_def
        getter_defs split: list.splits)

lemma adv_ManufacturerData:
  "ok_reply m \<Longrightarrow> reads_as adv_vtable ''ManufacturerData'' m
     [Open_container CHR ''a'' ''{qay}'', Close_container]"
  by (auto simp: ok_reply_def reads_as_def get_property_def adv_vtable_def adv_props_def
        getter_defs split: list.splits)

lemma adv_ServiceData:
  "ok_reply m \<Longrightarrow> reads_as adv_vtable ''ServiceData'' m
     [Open_container CHR ''a'' ''{say}'', Close_container]"
  by (auto simp: ok_reply_def reads_as_def get_property_def adv_vtable_def adv_props_def
        getter_defs split: list.splits)

lemma svc_UUID: "ok_reply m \<Longrightarrow> reads_as svc_vtable ''UUID'' m [Append ''s'' (Str SVC_UUID)]"
  by (auto simp: ok_reply_def reads_as_def get_property_def svc_vtable_def svc_props_def
        getter_defs split: list.splits)

lemma svc_Primary: "ok_reply m \<Longrightarrow> reads_as svc_vtable ''Primary'' m [Append ''b'' (Bool True)]"
  by (auto simp: ok_reply_def reads_as_def get_property_def svc_vtable_def svc_props_def
        getter_defs split: list.splits)

lemma svc_Characteristics:
  "ok_reply m \<Longrightarrow> reads_as svc_vtable ''Characteristics'' m
     [Open_container CHR ''a'' ''o'', Append ''o'' (Str CHR_PATH), Close_container]"
  by (auto simp: ok_reply_def reads_as_def get_property_def svc_vtable_def svc_props_def
        getter_defs split: list.splits)

lemma svc_Includes:
  "ok_reply m \<Longrightarrow> reads_as svc_vtable ''Includes'' m
     [Open_container CHR ''a'' ''o'', Close_container]"
  by (auto simp: ok_reply_def reads_as_def get_property_def svc_vtable_def svc_props_def
        getter_defs split: list.splits)

lemma chr_UUID: "ok_reply m \<Longrightarrow> reads_as chr_vtable ''UUID'' m [Append ''s'' (Str CHR_UUID)]"
  by (auto simp: ok_reply_def reads_as_def get_property_def chr_vtable_def chr_props_def
        getter_defs split: list.splits)

lemma chr_Service: "ok_reply m \<Longrightarrow> reads_as chr_vtable ''Service'' m [Append ''o'' (Str SVC_PATH)]"
  by (auto simp: ok_reply_def reads_as_def get_property_def chr_vtable_def chr_props_def
        getter_defs split: list.splits)

lemma chr_Notifying:
  "ok_reply m \<Longrightarrow> reads_as chr_vtable ''Notifying'' m [Append ''b'' (Bool False)]"
  by (auto simp: ok_reply_def reads_as_def get_property_def chr_vtable_def chr_props_def
        getter_defs split: list.splits)

lemma chr_Flags:
  "ok_reply m \<Longrightarrow> reads_as chr_vtable ''Flags'' m
     [Open_container CHR ''a'' ''s'', Append ''s'' (Str ''encrypt-authenticated-write''),
      Close_container]"
  by (auto simp: ok_reply_def reads_as_def get_property_def chr_vtable_def chr_props_def
        getter_defs split: list.splits)

lemma chr_Descriptors:
  "ok_reply m \<Longrightarrow> reads_as chr_vtable ''Descriptors'' m
     [Open_container CHR ''a'' ''o'', Close_container]"
  by (auto simp: ok_reply_def reads_as_def get_property_def chr_vtable_def chr_props_def
        getter_defs split: list.splits)

lemma adv_props_unknown:
  "property \<notin> {''Type'', ''IncludeTxPower'', ''ServiceUUIDs'', ''SolicitUUIDs'',
       ''ManufacturerData'', ''ServiceData''} \<Longrightarrow>
     adv_props property reply = (- ENOENT, reply)"
  by (simp add: adv_props_def)

lemma chr_props_unknown:
  "property \<notin> {''UUID'', ''Service'', ''Notifying'', ''Flags'', ''Descriptors''} \<Longrightarrow>
     chr_props property reply = (- ENOENT, reply)"
  by (simp add: chr_props_def)

subsection \<open>Registration\<close>

lemma bus_read_eq: "bus_read bus = (status bus, advance bus)"
  by (simp add: bus_read_def status_def advance_def split: prod.splits)

lemma status_ok: "ok_bus bus \<Longrightarrow> \<not> status bus < 0"
  by (auto simp: ok_bus_def status_def next_status_def split: list.splits)

lemma ok_bus_advance: "ok_bus bus \<Longrightarrow> ok_bus (advance bus)"
  by (auto simp: ok_bus_def advance_def next_status_def split: list.splits)

lemma async_calls_advance: "async_calls (advance bus) = async_calls bus"
  by (simp add: advance_def)

lemma call_async_eq:
  "ok_bus bus \<Longrightarrow> sd_bus_call_method_async bus dest p iface mem tys a =
     (status bus,
      (advance bus)\<lparr>async_calls := async_calls bus @
         [\<lparr>destination = dest, path = p, interface = iface, member = mem,
           types = tys, arg_path = a\<rparr>]\<rparr>)"
  by (auto simp: sd_bus_call_method_async_def ok_bus_def status_def advance_def next_status_def
           split: list.splits)

lemma ok_bus_async_calls: "ok_bus (bus\<lparr>async_calls := cs\<rparr>) = ok_bus bus"
  by (simp add: ok_bus_def)

lemmas bus_ok_simps =
  bus_read_eq status_ok ok_bus_advance async_calls_advance call_async_eq ok_bus_async_calls

lemma ifaces_loop_ok:
  "ok_bus bus \<Longrightarrow>
     fst (ifaces_loop obj ifaces bus) = 0 \<and>
     async_calls (snd (ifaces_loop obj ifaces bus)) =
       async_calls bus @ concat (map (register obj) ifaces) \<and>
     ok_bus (snd (ifaces_loop obj ifaces bus))"
proof (induction ifaces arbitrary: bus)
  case Nil
  then show ?case by (simp add: bus_ok_simps)
next
  case (Cons iface rest)
  let ?b = "advance (advance (advance (advance bus)))"
  from Cons.prems have b: "ok_bus ?b" by (simp add: ok_bus_advance)
  show ?case
  proof (cases "iface = ''org.bluez.GattManager1''")
    case True
    let ?c = "(advance ?b)\<lparr>async_calls := async_calls bus @ register obj iface\<rparr>"
    from b have c: "ok_bus ?c" by (simp add: ok_bus_advance ok_bus_async_calls)
    from True Cons.prems b have "ifaces_loop obj (iface # rest) bus = ifaces_loop obj rest ?c"
      by (simp add: bus_ok_simps register_def MAN_PATH_def)
    with Cons.IH [OF c] show ?thesis by simp
  next
    case False
    note g = False
    show ?thesis
    proof (cases "iface = ''org.bluez.LEAdvertisingManager1''")
      case True
      let ?c = "(advance ?b)\<lparr>async_calls := async_calls bus @ register obj iface\<rparr>"
      from b have c: "ok_bus ?c" by (simp add: ok_bus_advance ok_bus_async_calls)
      from True Cons.prems b have "ifaces_loop obj (iface # rest) bus = ifaces_loop obj rest ?c"
        by (simp add: bus_ok_simps register_def ADV_PATH_def)
      with Cons.IH [OF c] show ?thesis by simp
    next
      case False
      with g Cons.prems b have "ifaces_loop obj (iface # rest) bus = ifaces_loop obj rest ?b"
        by (simp add: bus_ok_simps)
      with Cons.IH [OF b] g False show ?thesis
        by (simp add: register_def async_calls_advance)
    qed
  qed
qed

lemma on_bt_iface_ok:
  assumes "ok_bus bus"
  shows "fst (on_bt_iface m bus) = 0 \<and>
     async_calls (snd (on_bt_iface m bus)) =
       async_calls bus @ concat (map (register (fst m)) (snd m)) \<and>
     ok_bus (snd (on_bt_iface m bus))"
proof -
  let ?b = "advance (advance (advance bus))"
  from assms have b: "ok_bus ?b" by (simp add: ok_bus_advance)
  obtain r bus' where l: "ifaces_loop (fst m) (snd m) ?b = (r, bus')"
    by (cases "ifaces_loop (fst m) (snd m) ?b")
  with ifaces_loop_ok [OF b, of "fst m" "snd m"]
  have r: "r = 0" and c: "async_calls bus' = async_calls bus @ concat (map (register (fst m)) (snd m))"
    and o: "ok_bus bus'"
    by (simp_all add: async_calls_advance)
  from assms b l r o have "on_bt_iface m bus = (0, advance bus')"
    by (simp add: on_bt_iface_def bus_ok_simps)
  with c o show ?thesis
    by (simp add: async_calls_advance ok_bus_advance)
qed

lemma objects_loop_ok:
  "ok_bus bus \<Longrightarrow>
     \<exists>bus'. objects_loop ms bus = Inr bus' \<and>
       async_calls bus' = async_calls bus @ announced ms \<and> ok_bus bus'"
proof (induction ms arbitrary: bus)
  case Nil
  then show ?case
    by (simp add: bus_ok_simps announced_def)
next
  case (Cons m ms)
  let ?b = "advance bus"
  from Cons.prems have b: "ok_bus ?b" by (simp add: ok_bus_advance)
  obtain r bus1 where l: "on_bt_iface m ?b = (r, bus1)"
    by (cases "on_bt_iface m ?b")
  with on_bt_iface_ok [OF b, of m]
  have r: "r = 0"
    and c: "async_calls bus1 = async_calls bus @ concat (map (register (fst m)) (snd m))"
    and o: "ok_bus bus1"
    by (simp_all add: async_calls_advance)
  from o have o2: "ok_bus (advance bus1)" by (simp add: ok_bus_advance)
  from Cons.prems l r o have "objects_loop (m # ms) bus = objects_loop ms (advance bus1)"
    by (simp add: bus_ok_simps)
  with Cons.IH [OF o2] c show ?case
    by (auto simp: async_calls_advance announced_def)
qed

lemma setup_registration_ok:
  assumes "ok_bus bus"
  shows "\<exists>bus'. setup_registration ms bus = Inr bus' \<and>
       async_calls bus' = async_calls bus @ announced ms \<and> ok_bus bus'"
proof -
  let ?b = "advance (advance (advance bus))"
  from assms have b: "ok_bus ?b" by (simp add: ok_bus_advance)
  from assms have "setup_registration ms bus = objects_loop ms ?b"
    by (simp add: setup_registration_def bus_ok_simps)
  with objects_loop_ok [OF b, of ms] show ?thesis
    by (simp add: async_calls_advance)
qed

lemma process_signals_ok:
  "ok_bus bus \<Longrightarrow>
     async_calls (process_signals ms bus) = async_calls bus @ announced ms \<and>
     ok_bus (process_signals ms bus)"
proof (induction ms arbitrary: bus)
  case Nil
  then show ?case by (simp add: announced_def)
next
  case (Cons m ms)
  from on_bt_iface_ok [OF Cons.prems, of m]
  have c: "async_calls (snd (on_bt_iface m bus)) =
      async_calls bus @ concat (map (register (fst m)) (snd m))"
    and o: "ok_bus (snd (on_bt_iface m bus))"
    by simp_all
  from Cons.IH [OF o] c show ?case
    by (simp add: announced_def)
qed

subsection \<open>C1: how often a manager is registered\<close>

text \<open>
  Claim C1, as stated: for each kind of manager a registration call is issued at most
  once in a run, also when the startup enumeration and a later notification both report
  the same manager interface. The code keeps no registration state: with the GATT manager
  of \<^verbatim>\<open>/org/bluez/hci0\<close> reported by the enumeration and again by one notification,
  \<^verbatim>\<open>RegisterApplication\<close> is called twice.
\<close>

theorem registration_repeated_counterexample:
  "lifetime [(''/org/bluez/hci0'', [''org.bluez.GattManager1''])]
     [(''/org/bluez/hci0'', [''org.bluez.GattManager1''])]
     \<lparr>async_calls = [], bus_faults = []\<rparr> =
   Inr \<lparr>async_calls =
          [\<lparr>destination = ''org.bluez'', path = ''/org/bluez/hci0'',
            interface = ''org.bluez.GattManager1'', member = ''RegisterApplication'',
            types = ''oa{sv}'', arg_path = ''/''\<rparr>,
           \<lparr>destination = ''org.bluez'', path = ''/org/bluez/hci0'',
            interface = ''org.bluez.GattManager1'', member = ''RegisterApplication'',
            types = ''oa{sv}'', arg_path = ''/''\<rparr>],
        bus_faults = []\<rparr>"
  by (simp add: lifetime_def setup_registration_def on_bt_iface_def bus_read_def
        sd_bus_call_method_async_def next_status_def MAN_PATH_def)

text \<open>
  Claim C1, amended: \<^verbatim>\<open>on_bt_iface\<close> issues the registration call of a kind at every
  announcement of that kind's interface it reads, from the startup enumeration or from a
  notification, and consults no state. When no sd-bus call fails, the calls queued over a
  run are exactly one for each announced manager interface, first those of the
  enumeration and then those of the notifications, each in the order of arrival: a
  manager interface announced once is registered once, one announced twice is registered
  twice.
\<close>

theorem registration_per_announcement:
  assumes "ok_bus bus"
  shows "\<exists>bus'. lifetime objects signals bus = Inr bus' \<and>
     async_calls bus' = async_calls bus @ announced objects @ announced signals"
proof -
  from setup_registration_ok [OF assms, of objects] obtain bus1
    where s: "setup_registration objects bus = Inr bus1"
      and c: "async_calls bus1 = async_calls bus @ announced objects"
      and o: "ok_bus bus1"
    by blast
  from process_signals_ok [OF o, of signals] c
  have "async_calls (process_signals signals bus1) =
      async_calls bus @ announced objects @ announced signals"
    by simp
  with s show ?thesis by (simp add: lifetime_def)
qed

theorem registration_per_announcement_witness:
  "ok_bus \<lparr>async_calls = [], bus_faults = []\<rparr> \<and>
   (\<exists>bus'. lifetime [(''/org/bluez/hci0'',
                      [''org.bluez.LEAdvertisingManager1'', ''org.bluez.Media1''])]
             [(''/org/bluez/hci0'', [''org.bluez.LEAdvertisingManager1''])]
             \<lparr>async_calls = [], bus_faults = []\<rparr> = Inr bus' \<and>
      async_calls bus' =
        [\<lparr>destination = ''org.bluez'', path = ''/org/bluez/hci0'',
          interface = ''org.bluez.LEAdvertisingManager1'', member = ''RegisterAdvertisement'',
          types = ''oa{sv}'', arg_path = ''/adv''\<rparr>,
         \<lparr>destination = ''org.bluez'', path = ''/org/bluez/hci0'',
          interface = ''org.bluez.LEAdvertisingManager1'', member = ''RegisterAdvertisement'',
          types = ''oa{sv}'', arg_path = ''/adv''\<rparr>])"
proof -
  have h: "ok_bus \<lparr>async_calls = [], bus_faults = []\<rparr>"
    by (simp add: ok_bus_def)
  from registration_per_announcement [OF h,
      of "[(''/org/bluez/hci0'', [''org.bluez.LEAdvertisingManager1'', ''org.bluez.Media1''])]"
         "[(''/org/bluez/hci0'', [''org.bluez.LEAdvertisingManager1''])]"] h
  show ?thesis
    by (simp add: announced_def register_def)
qed


subsection \<open>C2: values of a wrong length\<close>

text \<open>
  Claim C2. For every written byte sequence whose length is 0 or greater than 32,
  \<^verbatim>\<open>WriteValue\<close> answers with the remote error
  \<^verbatim>\<open>org.bluez.Error.InvalidValueLength\<close> and emits no key event: the device is
  left as it was, so no write to it was made or tried in the call.
\<close>

theorem WriteValue_invalid_length:
  assumes "readable m" and "length (bytes m) = 0 \<or> 32 < length (bytes m)"
  shows "call_method chr_vtable ''WriteValue'' m d =
     Some (Method_error ''org.bluez.Error.InvalidValueLength'' ''Invalid value length'', d)"
proof -
  obtain r f where a: "next_status (faults m) = (r, f)" by (cases "next_status (faults m)")
  obtain r' f' where b: "next_status f = (r', f')" by (cases "next_status f")
  from next_status_readable [OF assms(1) a b] have "0 \<le> r" "0 \<le> r'" by simp_all
  with a b assms(2) show ?thesis
    by (auto simp: call_WriteValue chr_writevalue_def sd_bus_reply_method_errorf_def)
qed

theorem WriteValue_invalid_length_witness:
  "readable \<lparr>bytes = [], faults = []\<rparr> \<and>
   call_method chr_vtable ''WriteValue'' \<lparr>bytes = [], faults = []\<rparr>
     \<lparr>log = [], script = [], errno = 0\<rparr> =
     Some (Method_error ''org.bluez.Error.InvalidValueLength'' ''Invalid value length'',
           \<lparr>log = [], script = [], errno = 0\<rparr>) \<and>
   readable \<lparr>bytes = replicate 33 49, faults = []\<rparr> \<and>
   call_method chr_vtable ''WriteValue'' \<lparr>bytes = replicate 33 49, faults = []\<rparr>
     \<lparr>log = [], script = [], errno = 0\<rparr> =
     Some (Method_error ''org.bluez.Error.InvalidValueLength'' ''Invalid value length'',
           \<lparr>log = [], script = [], errno = 0\<rparr>)"
proof -
  have r1: "readable \<lparr>bytes = [], faults = []\<rparr>"
    and r2: "readable \<lparr>bytes = replicate 33 49, faults = []\<rparr>"
    by (simp_all add: readable_def)
  have l1: "length (bytes \<lparr>bytes = [], faults = []\<rparr>) = 0 \<or>
            32 < length (bytes \<lparr>bytes = [], faults = []\<rparr>)"
    and l2: "length (bytes \<lparr>bytes = replicate 33 49, faults = []\<rparr>) = 0 \<or>
             32 < length (bytes \<lparr>bytes = replicate 33 49, faults = []\<rparr>)"
    by simp_all
  show ?thesis
    using r1 r2 WriteValue_invalid_length [OF r1 l1] WriteValue_invalid_length [OF r2 l2]
    by simp
qed


subsection \<open>C3: values with a byte that is not a digit\<close>

text \<open>
  Claim C3. For every written byte sequence of 1 to 32 bytes that holds at least one byte
  outside \<^verbatim>\<open>'0'\<close> to \<^verbatim>\<open>'9'\<close>, \<^verbatim>\<open>WriteValue\<close> answers with the remote
  error \<^verbatim>\<open>org.bluez.Error.NotPermitted\<close> and emits no key event, wherever the
  byte stands: the whole value is validated before the first event is written.
\<close>

theorem WriteValue_not_permitted:
  assumes "readable m" and "1 \<le> length (bytes m)" and "length (bytes m) \<le> 32"
    and "\<exists>b\<in>set (bytes m). \<not> is_digit b"
  shows "call_method chr_vtable ''WriteValue'' m d =
     Some (Method_error ''org.bluez.Error.NotPermitted'' ''Invalid value'', d)"
proof -
  obtain r f where a: "next_status (faults m) = (r, f)" by (cases "next_status (faults m)")
  obtain r' f' where b: "next_status f = (r', f')" by (cases "next_status f")
  from next_status_readable [OF assms(1) a b] have "0 \<le> r" "0 \<le> r'" by simp_all
  moreover from assms(4) have "\<not> validate (bytes m)" by (simp add: validate_iff)
  ultimately show ?thesis
    using a b assms(2,3)
    by (auto simp: call_WriteValue chr_writevalue_def sd_bus_reply_method_errorf_def)
qed

theorem WriteValue_not_permitted_witness:
  "readable \<lparr>bytes = [49, 50, 51, 97], faults = []\<rparr> \<and>
   (\<exists>b\<in>set [49, 50, 51, 97]. \<not> is_digit b) \<and>
   call_method chr_vtable ''WriteValue'' \<lparr>bytes = [49, 50, 51, 97], faults = []\<rparr>
     \<lparr>log = [], script = [], errno = 0\<rparr> =
     Some (Method_error ''org.bluez.Error.NotPermitted'' ''Invalid value'',
           \<lparr>log = [], script = [], errno = 0\<rparr>)"
proof -
  have r: "readable \<lparr>bytes = [49, 50, 51, 97], faults = []\<rparr>"
    by (simp add: readable_def)
  have l1: "1 \<le> length (bytes \<lparr>bytes = [49, 50, 51, 97], faults = []\<rparr>)"
    and l2: "length (bytes \<lparr>bytes = [49, 50, 51, 97], faults = []\<rparr>) \<le> 32"
    by simp_all
  have b: "\<exists>b\<in>set (bytes \<lparr>bytes = [49, 50, 51, 97], faults = []\<rparr>). \<not> is_digit b"
    by (simp add: is_digit_def)
  show ?thesis
    using r b WriteValue_not_permitted [OF r l1 l2 b] by simp
qed


subsection \<open>C4: typing a value\<close>

text \<open>
  Claim C4. For every value of 1 to 32 ASCII digits, when all writes to the device
  succeed, \<^verbatim>\<open>WriteValue\<close> emits for each byte, in the order of the bytes, a key-down
  and then a key-up of the digit's key, then a key-down and key-up of Enter, with nothing
  reordered and repeated digits not merged; a \<^verbatim>\<open>usleep\<close> of 50000 microseconds
  stands between each press and its release and between the release and the next press;
  the reply is an empty method return. The key of a digit is given by \<open>digit_key\<close>,
  which does not go through the table of the code.
\<close>

theorem WriteValue_types_digits:
  assumes "readable m" and "well_formed (bytes m)" and "\<forall>n\<in>set (script d). n = 0"
  shows "call_method chr_vtable ''WriteValue'' m d =
     Some (Method_return '''',
           d\<lparr>log := log d @ typed_digits (bytes m) @ [Write sync_event, Usleep 50000],
             script := drop (4 * length (bytes m) + 5) (script d)\<rparr>) \<and>
   keys (typed_digits (bytes m) @ [Write sync_event, Usleep 50000]) =
     concat (map (\<lambda>b. [key_event (digit_key b) True, key_event (digit_key b) False]) (bytes m)) @
     [key_event KEY_ENTER True, key_event KEY_ENTER False]"
proof
  from assms(2) have dig: "\<forall>b\<in>set (bytes m). is_digit b"
    by (simp add: well_formed_def)
  from chr_writevalue_ok [OF assms] typed_digit_keys [OF dig]
  show "call_method chr_vtable ''WriteValue'' m d =
     Some (Method_return '''',
           d\<lparr>log := log d @ typed_digits (bytes m) @ [Write sync_event, Usleep 50000],
             script := drop (4 * length (bytes m) + 5) (script d)\<rparr>)"
    by (simp add: call_WriteValue)
  have "keys (typed_digits (bytes m) @ [Write sync_event, Usleep 50000]) =
      keys (typed_digits (bytes m))"
    by (simp add: keys_append keys_sentinel)
  then show "keys (typed_digits (bytes m) @ [Write sync_event, Usleep 50000]) =
     concat (map (\<lambda>b. [key_event (digit_key b) True, key_event (digit_key b) False]) (bytes m)) @
     [key_event KEY_ENTER True, key_event KEY_ENTER False]"
    by (simp add: keys_typed_digits)
qed

theorem WriteValue_types_digits_witness:
  "readable \<lparr>bytes = [49, 48], faults = []\<rparr> \<and> well_formed [49, 48] \<and>
   call_method chr_vtable ''WriteValue'' \<lparr>bytes = [49, 48], faults = []\<rparr>
     \<lparr>log = [], script = [], errno = 0\<rparr> =
     Some (Method_return '''',
       \<lparr>log =
          [Write sync_event, Write (key_event KEY_1 True), Usleep 50000,
           Write sync_event, Write (key_event KEY_1 False), Usleep 50000,
           Write sync_event, Write (key_event KEY_0 True), Usleep 50000,
           Write sync_event, Write (key_event KEY_0 False), Usleep 50000,
           Write sync_event, Write (key_event KEY_ENTER True), Usleep 50000,
           Write sync_event, Write (key_event KEY_ENTER False), Usleep 50000,
           Write sync_event, Usleep 50000],
        script = [], errno = 0\<rparr>) \<and>
   readable \<lparr>bytes = [48, 49, 50, 51, 52, 53, 54, 55, 56, 57], faults = []\<rparr> \<and>
   well_formed [48, 49, 50, 51, 52, 53, 54, 55, 56, 57] \<and>
   (case call_method chr_vtable ''WriteValue''
           \<lparr>bytes = [48, 49, 50, 51, 52, 53, 54, 55, 56, 57], faults = []\<rparr>
           \<lparr>log = [], script = [], errno = 0\<rparr> of
      None \<Rightarrow> False
    | Some (out, d') \<Rightarrow>
        out = Method_return '''' \<and>
        keys (log d') =
          [key_event KEY_0 True, key_event KEY_0 False,
           key_event KEY_1 True, key_event KEY_1 False,
           key_event KEY_2 True, key_event KEY_2 False,
           key_event KEY_3 True, key_event KEY_3 False,
           key_event KEY_4 True, key_event KEY_4 False,
           key_event KEY_5 True, key_event KEY_5 False,
           key_event KEY_6 True, key_event KEY_6 False,
           key_event KEY_7 True, key_event KEY_7 False,
           key_event KEY_8 True, key_event KEY_8 False,
           key_event KEY_9 True, key_event KEY_9 False,
           key_event KEY_ENTER True, key_event KEY_ENTER False])"
proof -
  let ?d = "\<lparr>log = [], script = [], errno = 0\<rparr>"
  let ?m = "\<lparr>bytes = [49, 48], faults = []\<rparr>"
  let ?n = "\<lparr>bytes = [48, 49, 50, 51, 52, 53, 54, 55, 56, 57], faults = []\<rparr>"
  have r: "readable ?m" and r': "readable ?n"
    by (simp_all add: readable_def)
  have w: "well_formed (bytes ?m)" and w': "well_formed (bytes ?n)"
    by (simp_all add: well_formed_def is_digit_def)
  have s: "\<forall>n\<in>set (script ?d). n = 0"
    by simp
  have k: "digit_key 48 = KEY_0" "digit_key 49 = KEY_1" "digit_key 50 = KEY_2"
    "digit_key 51 = KEY_3" "digit_key 52 = KEY_4" "digit_key 53 = KEY_5"
    "digit_key 54 = KEY_6" "digit_key 55 = KEY_7" "digit_key 56 = KEY_8"
    "digit_key 57 = KEY_9"
    by (simp_all add: digit_key_def key_defs)
  from WriteValue_types_digits [OF r w s]
  have 1: "call_method chr_vtable ''WriteValue'' ?m ?d =
     Some (Method_return '''',
       \<lparr>log =
          [Write sync_event, Write (key_event KEY_1 True), Usleep 50000,
           Write sync_event, Write (key_event KEY_1 False), Usleep 50000,
           Write sync_event, Write (key_event KEY_0 True), Usleep 50000,
           Write sync_event, Write (key_event KEY_0 False), Usleep 50000,
           Write sync_event, Write (key_event KEY_ENTER True), Usleep 50000,
           Write sync_event, Write (key_event KEY_ENTER False), Usleep 50000,
           Write sync_event, Usleep 50000],
        script = [], errno = 0\<rparr>)"
    by (simp add: typed_digits_def press_release_def k)
  from WriteValue_types_digits [OF r' w' s]
  have 2: "call_method chr_vtable ''WriteValue'' ?n ?d =
     Some (Method_return '''',
       ?d\<lparr>log := typed_digits (bytes ?n) @ [Write sync_event, Usleep 50000]\<rparr>)"
    and 3: "keys (typed_digits (bytes ?n) @ [Write sync_event, Usleep 50000]) =
          [key_event KEY_0 True, key_event KEY_0 False,
           key_event KEY_1 True, key_event KEY_1 False,
           key_event KEY_2 True, key_event KEY_2 False,
           key_event KEY_3 True, key_event KEY_3 False,
           key_event KEY_4 True, key_event KEY_4 False,
           key_event KEY_5 True, key_event KEY_5 False,
           key_event KEY_6 True, key_event KEY_6 False,
           key_event KEY_7 True, key_event KEY_7 False,
           key_event KEY_8 True, key_event KEY_8 False,
           key_event KEY_9 True, key_event KEY_9 False,
           key_event KEY_ENTER True, key_event KEY_ENTER False]"
    by (simp_all add: k)
  from r w r' w' 1 2 3 show ?thesis
    by simp
qed


subsection \<open>C5: a write that fails\<close>

text \<open>
  Claim C5. If a write to the device fails part of the way through the emission of a
  validated value (the first \<open>n\<close> writes of the call succeed and the next one fails),
  \<^verbatim>\<open>WriteValue\<close> stops there: the events written are the first \<open>n\<close> events of the
  sequence and no later one, they stay in the log (nothing is taken back), the reply is
  the remote error \<^verbatim>\<open>org.bluez.Error.Failed\<close>, and the handler returns, so that a
  later call on the same device is served: with no further failing write it types its
  value and succeeds.
\<close>

theorem WriteValue_write_failure:
  assumes "readable m" and "well_formed (bytes m)"
    and "script d = replicate n 0 @ Suc e # rest"
    and "n < 4 * length (bytes m) + 5"
  shows "call_method chr_vtable ''WriteValue'' m d =
     Some (Method_error ''org.bluez.Error.Failed'' ''Write failed'',
           d\<lparr>log := log d @ upto_write n (typed (bytes m) @ [Write sync_event, Usleep 50000]),
             script := rest, errno := Suc e\<rparr>) \<and>
   writes (upto_write n (typed (bytes m) @ [Write sync_event, Usleep 50000])) =
     take n (writes (typed (bytes m) @ [Write sync_event, Usleep 50000])) \<and>
   (\<forall>m'. readable m' \<and> well_formed (bytes m') \<and> (\<forall>x\<in>set rest. x = 0) \<longrightarrow>
      (\<exists>d'. call_method chr_vtable ''WriteValue'' m'
          (d\<lparr>log := log d @ upto_write n (typed (bytes m) @ [Write sync_event, Usleep 50000]),
             script := rest, errno := Suc e\<rparr>) = Some (Method_return '''', d')))"
proof -
  from assms(2) have dig: "\<forall>b\<in>set (bytes m). is_digit b" by (simp add: well_formed_def)
  have p: "plan (bytes m) = typed (bytes m) @ [Write sync_event, Usleep 50000]"
    by (rule plan_typed [OF dig])
  have "length (writes (plan (bytes m))) = 4 * length (bytes m) + 5"
    by (simp add: p writes_append length_writes_typed)
  with assms(4) have "n < length (writes (plan (bytes m)))" by simp
  from perform_fail [OF assms(3) this]
  have 1: "call_method chr_vtable ''WriteValue'' m d =
     Some (Method_error ''org.bluez.Error.Failed'' ''Write failed'',
           d\<lparr>log := log d @ upto_write n (typed (bytes m) @ [Write sync_event, Usleep 50000]),
             script := rest, errno := Suc e\<rparr>)"
    by (simp add: call_WriteValue chr_writevalue_perform [OF assms(1,2)] p)
  have 3: "\<exists>d'. call_method chr_vtable ''WriteValue'' m'
          (d\<lparr>log := log d @ upto_write n (typed (bytes m) @ [Write sync_event, Usleep 50000]),
             script := rest, errno := Suc e\<rparr>) = Some (Method_return '''', d')"
    if "readable m'" and "well_formed (bytes m')" and "\<forall>x\<in>set rest. x = 0" for m'
    using chr_writevalue_ok [OF that(1,2), of "d\<lparr>log := log d @
        upto_write n (typed (bytes m) @ [Write sync_event, Usleep 50000]),
        script := rest, errno := Suc e\<rparr>"] that(3)
    by (simp add: call_WriteValue)
  from 1 3 show ?thesis
    by (simp add: writes_upto_write)
qed

theorem WriteValue_write_failure_witness:
  "readable \<lparr>bytes = [49, 50], faults = []\<rparr> \<and> well_formed [49, 50] \<and>
   call_method chr_vtable ''WriteValue'' \<lparr>bytes = [49, 50], faults = []\<rparr>
     \<lparr>log = [], script = [0, 0, 0, 5], errno = 0\<rparr> =
     Some (Method_error ''org.bluez.Error.Failed'' ''Write failed'',
       \<lparr>log = [Write sync_event, Write (key_event KEY_1 True), Usleep 50000, Write sync_event],
        script = [], errno = 5\<rparr>) \<and>
   (\<exists>d'. call_method chr_vtable ''WriteValue'' \<lparr>bytes = [49, 50], faults = []\<rparr>
       \<lparr>log = [Write sync_event, Write (key_event KEY_1 True), Usleep 50000, Write sync_event],
        script = [], errno = 5\<rparr> = Some (Method_return '''', d'))"
proof -
  let ?m = "\<lparr>bytes = [49, 50], faults = []\<rparr>"
  let ?d = "\<lparr>log = [], script = [0, 0, 0, 5], errno = 0\<rparr>"
  have r: "readable ?m"
    by (simp add: readable_def)
  have w: "well_formed (bytes ?m)"
    by (simp add: well_formed_def is_digit_def)
  have s: "script ?d = replicate 3 0 @ Suc 4 # []"
    by (simp add: numeral_3_eq_3)
  have n: "3 < 4 * length (bytes ?m) + 5"
    by simp
  have u: "upto_write 3 (typed (bytes ?m) @ [Write sync_event, Usleep 50000]) =
      [Write sync_event, Write (key_event KEY_1 True), Usleep 50000, Write sync_event]"
    by (simp add: typed_def press_release_def char2key_def numeral_3_eq_3)
  from WriteValue_write_failure [OF r w s n] r w show ?thesis
    unfolding u by simp
qed


subsection \<open>C6: a property name that is not declared\<close>





subsection \<open>C7: the methods with a fixed reply\<close>

text \<open>
  Claim C7, as stated: on every call, whatever its arguments, \<^verbatim>\<open>ReadValue\<close> and
  \<^verbatim>\<open>StartNotify\<close> fail with \<^verbatim>\<open>org.bluez.Error.NotSupported\<close>, and
  \<^verbatim>\<open>StopNotify\<close> and \<^verbatim>\<open>Release\<close> succeed with an empty reply. The vtables
  declare the four methods with an empty input signature, so a call of
  \<^verbatim>\<open>ReadValue\<close> with a byte array as its argument does not reach
  \<^verbatim>\<open>chr_notsup\<close>: sd-bus refuses it as invalid arguments.
\<close>

theorem method_arguments_counterexample:
  "dispatch_method chr_vtable ''ReadValue'' ''ay'' \<lparr>bytes = [49], faults = []\<rparr>
     \<lparr>log = [], script = [], errno = 0\<rparr> =
   Inl ''org.freedesktop.DBus.Error.InvalidArgs''"
  by (simp add: dispatch_method_def chr_vtable_def)

text \<open>
  Claim C7, amended: on every call without arguments, whatever the calls made before
  and the state of the device, \<^verbatim>\<open>ReadValue\<close> and \<^verbatim>\<open>StartNotify\<close> of the
  characteristic fail with \<^verbatim>\<open>org.bluez.Error.NotSupported\<close>, and \<^verbatim>\<open>StopNotify\<close>
  of the characteristic and \<^verbatim>\<open>Release\<close> of the advertisement succeed with an empty
  reply; none of them touches the device. A call of one of the four with arguments is
  refused by sd-bus as invalid arguments and does not enter the handler.
\<close>

theorem fixed_method_replies:
  "dispatch_method chr_vtable ''ReadValue'' '''' m d =
     Inr (Method_error ''org.bluez.Error.NotSupported'' ''Not supported'', d) \<and>
   dispatch_method chr_vtable ''StartNotify'' '''' m d =
     Inr (Method_error ''org.bluez.Error.NotSupported'' ''Not supported'', d) \<and>
   dispatch_method chr_vtable ''StopNotify'' '''' m d = Inr (Method_return '''', d) \<and>
   dispatch_method adv_vtable ''Release'' '''' m d = Inr (Method_return '''', d) \<and>
   (signature \<noteq> '''' \<longrightarrow>
      dispatch_method chr_vtable ''ReadValue'' signature m d =
        Inl ''org.freedesktop.DBus.Error.InvalidArgs'' \<and>
      dispatch_method chr_vtable ''StartNotify'' signature m d =
        Inl ''org.freedesktop.DBus.Error.InvalidArgs'' \<and>
      dispatch_method chr_vtable ''StopNotify'' signature m d =
        Inl ''org.freedesktop.DBus.Error.InvalidArgs'' \<and>
      dispatch_method adv_vtable ''Release'' signature m d =
        Inl ''org.freedesktop.DBus.Error.InvalidArgs'')"
  by (simp add: dispatch_method_def chr_vtable_def adv_vtable_def chr_notsup_def meth_noop_def
        sd_bus_error_set_def sd_bus_reply_method_return_def)

theorem fixed_method_replies_witness:
  "''ay'' \<noteq> '''' \<and>
   dispatch_method chr_vtable ''ReadValue'' '''' \<lparr>bytes = [], faults = []\<rparr>
     \<lparr>log = [Usleep 50000], script = [7], errno = 0\<rparr> =
     Inr (Method_error ''org.bluez.Error.NotSupported'' ''Not supported'',
          \<lparr>log = [Usleep 50000], script = [7], errno = 0\<rparr>) \<and>
   dispatch_method chr_vtable ''StopNotify'' '''' \<lparr>bytes = [], faults = []\<rparr>
     \<lparr>log = [Usleep 50000], script = [7], errno = 0\<rparr> =
     Inr (Method_return '''', \<lparr>log = [Usleep 50000], script = [7], errno = 0\<rparr>) \<and>
   dispatch_method adv_vtable ''Release'' ''ay'' \<lparr>bytes = [], faults = []\<rparr>
     \<lparr>log = [Usleep 50000], script = [7], errno = 0\<rparr> =
     Inl ''org.freedesktop.DBus.Error.InvalidArgs''"
  using fixed_method_replies [of "\<lparr>bytes = [], faults = []\<rparr>"
      "\<lparr>log = [Usleep 50000], script = [7], errno = 0\<rparr>" "''ay''"]
  by simp


subsection \<open>C8: the values of the properties\<close>

text \<open>
  Claim C8. Every declared property reads as its fixed value on every call, whatever the
  reply already holds: of the advertisement, \<^verbatim>\<open>Type\<close> is \<^verbatim>\<open>"broadcast"\<close>,
  \<^verbatim>\<open>IncludeTxPower\<close> is true, \<^verbatim>\<open>ServiceUUIDs\<close> is the array of the one service
  UUID, and \<^verbatim>\<open>SolicitUUIDs\<close>, \<^verbatim>\<open>ManufacturerData\<close> and \<^verbatim>\<open>ServiceData\<close> are
  empty arrays; of the characteristic, \<^verbatim>\<open>UUID\<close> is the characteristic UUID,
  \<^verbatim>\<open>Notifying\<close> is false, \<^verbatim>\<open>Flags\<close> is the array of
  \<^verbatim>\<open>"encrypt-authenticated-write"\<close> alone and \<^verbatim>\<open>Descriptors\<close> is empty. The
  properties of the service and \<^verbatim>\<open>Service\<close> of the characteristic are fixed in the
  same way. The getters read no state, so the values cannot change during a run; the
  hypothesis is that no sd-bus call on the reply fails.
\<close>

theorem property_values:
  assumes "ok_reply m"
  shows "reads_as adv_vtable ''Type'' m [Append ''s'' (Str ''broadcast'')] \<and>
    reads_as adv_vtable ''IncludeTxPower'' m [Append ''b'' (Bool True)] \<and>
    reads_as adv_vtable ''ServiceUUIDs'' m
      [Open_container CHR ''a'' ''s'',
       Append ''s'' (Str ''B670003C-0079-465C-9BA7-6C0539CCD67F''), Close_container] \<and>
    reads_as adv_vtable ''SolicitUUIDs'' m [Open_container CHR ''a'' ''s'', Close_container] \<and>
    reads_as adv_vtable ''ManufacturerData'' m
      [Open_container CHR ''a'' ''{qay}'', Close_container] \<and>
    reads_as adv_vtable ''ServiceData'' m
      [Open_container CHR ''a'' ''{say}'', Close_container] \<and>
    reads_as svc_vtable ''UUID'' m
      [Append ''s'' (Str ''B670003C-0079-465C-9BA7-6C0539CCD67F'')] \<and>
    reads_as svc_vtable ''Primary'' m [Append ''b'' (Bool True)] \<and>
    reads_as svc_vtable ''Characteristics'' m
      [Open_container CHR ''a'' ''o'', Append ''o'' (Str ''/svc/chr''), Close_container] \<and>
    reads_as svc_vtable ''Includes'' m [Open_container CHR ''a'' ''o'', Close_container] \<and>
    reads_as chr_vtable ''UUID'' m
      [Append ''s'' (Str ''F4186B06-D796-4327-AF39-AC22C50BDCA8'')] \<and>
    reads_as chr_vtable ''Service'' m [Append ''o'' (Str ''/svc'')] \<and>
    reads_as chr_vtable ''Notifying'' m [Append ''b'' (Bool False)] \<and>
    reads_as chr_vtable ''Flags'' m
      [Open_container CHR ''a'' ''s'', Append ''s'' (Str ''encrypt-authenticated-write''),
       Close_container] \<and>
    reads_as chr_vtable ''Descriptors'' m [Open_container CHR ''a'' ''o'', Close_container]"
  using adv_Type [OF assms] adv_IncludeTxPower [OF assms] adv_ServiceUUIDs [OF assms]
    adv_SolicitUUIDs [OF assms] adv_ManufacturerData [OF assms] adv_ServiceData [OF assms]
    svc_UUID [OF assms] svc_Primary [OF assms] svc_Characteristics [OF assms]
    svc_Includes [OF assms] chr_UUID [OF assms] chr_Service [OF assms]
    chr_Notifying [OF assms] chr_Flags [OF assms] chr_Descriptors [OF assms]
  by (simp only: SVC_UUID_def CHR_UUID_def SVC_PATH_def CHR_PATH_def simp_thms)

theorem property_values_witness:
  "ok_reply \<lparr>appended = [], reply_faults = [1, 0, 1]\<rparr> \<and>
   reads_as adv_vtable ''Type'' \<lparr>appended = [], reply_faults = [1, 0, 1]\<rparr>
     [Append ''s'' (Str ''broadcast'')] \<and>
   reads_as adv_vtable ''ServiceUUIDs'' \<lparr>appended = [], reply_faults = [1, 0, 1]\<rparr>
     [Open_container CHR ''a'' ''s'',
      Append ''s'' (Str ''B670003C-0079-465C-9BA7-6C0539CCD67F''), Close_container] \<and>
   reads_as chr_vtable ''Flags'' \<lparr>appended = [], reply_faults = [1, 0, 1]\<rparr>
     [Open_container CHR ''a'' ''s'', Append ''s'' (Str ''encrypt-authenticated-write''),
      Close_container] \<and>
   get_property chr_vtable ''Flags'' \<lparr>appended = [], reply_faults = [1, 0, 1]\<rparr> =
     Some (1, \<lparr>appended =
                 [Open_container CHR ''a'' ''s'',
                  Append ''s'' (Str ''encrypt-authenticated-write''), Close_container],
               reply_faults = []\<rparr>)"
proof -
  have h: "ok_reply \<lparr>appended = [], reply_faults = [1, 0, 1]\<rparr>"
    by (simp add: ok_reply_def)
  have g: "get_property chr_vtable ''Flags'' \<lparr>appended = [], reply_faults = [1, 0, 1]\<rparr> =
     Some (1, \<lparr>appended =
                 [Open_container CHR ''a'' ''s'',
                  Append ''s'' (Str ''encrypt-authenticated-write''), Close_container],
               reply_faults = []\<rparr>)"
    by (simp add: get_property_def chr_vtable_def chr_props_def getter_defs)
  from property_values [OF h] h g show ?thesis by simp
qed


subsection \<open>C9: the step after Enter\<close>

text \<open>
  Claim C9. On every successful \<^verbatim>\<open>WriteValue\<close>, the release of Enter is followed by
  one more step, the call of \<^verbatim>\<open>event\<close> with \<^verbatim>\<open>KEY_UNKNOWN\<close>, which writes
  exactly one sync event and no key event: the events of a successful call end with a sync
  event, and the last key event is the release of Enter.
\<close>

theorem WriteValue_success_ends_with_sync:
  assumes "call_method chr_vtable ''WriteValue'' m d = Some (Method_return '''', d')"
  shows "log d' = log d @ typed (bytes m) @ [Write sync_event, Usleep 50000] \<and>
    after_last_key (writes (typed (bytes m) @ [Write sync_event, Usleep 50000])) = [sync_event] \<and>
    last (keys (typed (bytes m) @ [Write sync_event, Usleep 50000])) = key_event KEY_ENTER False"
proof -
  from assms have c: "chr_writevalue m d = (Method_return '''', d')"
    by (simp add: call_WriteValue)
  from chr_writevalue_return [OF c] have r: "readable m" and w: "well_formed (bytes m)"
    by simp_all
  from w have dig: "\<forall>b\<in>set (bytes m). is_digit b" by (simp add: well_formed_def)
  have p: "plan (bytes m) = typed (bytes m) @ [Write sync_event, Usleep 50000]"
    by (rule plan_typed [OF dig])
  obtain r' d1 where e: "perform d (plan (bytes m)) = (r', d1)"
    by (cases "perform d (plan (bytes m))")
  with c chr_writevalue_perform [OF r w, of d] have "0 \<le> r'" and "d1 = d'"
    by (auto split: if_splits)
  with perform_success_log [OF e] p
  have 1: "log d' = log d @ typed (bytes m) @ [Write sync_event, Usleep 50000]"
    by simp
  have 2: "after_last_key (writes (typed (bytes m) @ [Write sync_event, Usleep 50000])) =
      [sync_event]"
    by (simp add: after_last_key_def typed_def press_release_def writes_append
          sync_event_def key_event_def EV_SYN_def EV_KEY_def)
  have 3: "last (keys (typed (bytes m) @ [Write sync_event, Usleep 50000])) =
      key_event KEY_ENTER False"
    by (simp add: keys_typed keys_append keys_sentinel)
  from 1 2 3 show ?thesis by simp
qed

theorem WriteValue_success_ends_with_sync_witness:
  "call_method chr_vtable ''WriteValue'' \<lparr>bytes = [55], faults = []\<rparr>
     \<lparr>log = [], script = [0, 0, 0, 0, 0, 0, 0, 0, 0, 5], errno = 0\<rparr> =
     Some (Method_return '''',
       \<lparr>log = typed [55] @ [Write sync_event, Usleep 50000], script = [5], errno = 0\<rparr>) \<and>
   typed [55] @ [Write sync_event, Usleep 50000] =
     [Write sync_event, Write (key_event KEY_7 True), Usleep 50000,
      Write sync_event, Write (key_event KEY_7 False), Usleep 50000,
      Write sync_event, Write (key_event KEY_ENTER True), Usleep 50000,
      Write sync_event, Write (key_event KEY_ENTER False), Usleep 50000,
      Write sync_event, Usleep 50000] \<and>
   after_last_key (writes (typed [55] @ [Write sync_event, Usleep 50000])) = [sync_event] \<and>
   last (keys (typed [55] @ [Write sync_event, Usleep 50000])) = key_event KEY_ENTER False"
proof -
  have r: "readable \<lparr>bytes = [55], faults = []\<rparr>"
    by (simp add: readable_def)
  have w: "well_formed (bytes \<lparr>bytes = [55], faults = []\<rparr>)"
    by (simp add: well_formed_def is_digit_def)
  have c: "call_method chr_vtable ''WriteValue'' \<lparr>bytes = [55], faults = []\<rparr>
     \<lparr>log = [], script = [0, 0, 0, 0, 0, 0, 0, 0, 0, 5], errno = 0\<rparr> =
     Some (Method_return '''',
       \<lparr>log = typed [55] @ [Write sync_event, Usleep 50000], script = [5], errno = 0\<rparr>)"
    by (simp add: call_WriteValue chr_writevalue_perform [OF r w] plan_def steps_def step_def
          typed_def press_release_def char2key_def key_defs write_ev_def usleep_def)
  have t: "typed [55] @ [Write sync_event, Usleep 50000] =
     [Write sync_event, Write (key_event KEY_7 True), Usleep 50000,
      Write sync_event, Write (key_event KEY_7 False), Usleep 50000,
      Write sync_event, Write (key_event KEY_ENTER True), Usleep 50000,
      Write sync_event, Write (key_event KEY_ENTER False), Usleep 50000,
      Write sync_event, Usleep 50000]"
    by (simp add: typed_def press_release_def char2key_def)
  show ?thesis
    using c t WriteValue_success_ends_with_sync [OF c] by simp
qed


subsection \<open>C10: the sync event comes first\<close>

text \<open>
  Claim C10. In every pass through \<^verbatim>\<open>event\<close> the sync event is written before the
  key event, not after it: among the events that a call of \<^verbatim>\<open>event\<close> or of
  \<^verbatim>\<open>chr_writevalue\<close> writes, whatever the key, the value and the failures of the
  device, every key event has a sync event directly in front of it; a release that is
  written in full is the sync event followed by the key event.
\<close>

theorem sync_event_precedes_key_event:
  "sync_before False (emitted d (snd (event d k down))) \<and>
   sync_before False (emitted d (snd (chr_writevalue m d))) \<and>
   ((\<forall>n\<in>set (script d). n = 0) \<and> k \<noteq> KEY_UNKNOWN \<longrightarrow>
      emitted d (snd (event d k False)) = [sync_event, key_event k False])"
proof -
  have 1: "sync_before False (emitted d (snd (event d k down)))"
    by (simp add: event_perform emitted_perform [OF sync_before_steps])
  have 2: "sync_before False (emitted d (snd (chr_writevalue m d)))"
  proof (cases "readable m \<and> well_formed (bytes m)")
    case True
    then have "snd (chr_writevalue m d) = snd (perform d (plan (bytes m)))"
      by (simp add: chr_writevalue_perform split: prod.splits)
    then show ?thesis
      by (simp add: emitted_perform [OF sync_before_plan])
  next
    case False
    then show ?thesis
      by (simp add: chr_writevalue_unchanged emitted_self)
  qed
  have 3: "emitted d (snd (event d k False)) = [sync_event, key_event k False]"
    if "\<forall>n\<in>set (script d). n = 0" and "k \<noteq> KEY_UNKNOWN"
  proof -
    from that(2) have "steps k False = [Write sync_event, Write (key_event k False), Usleep 50000]"
      by (simp add: steps_def step_def)
    with perform_ok [OF that(1), of "steps k False"]
    have "log (snd (event d k False)) =
        log d @ [Write sync_event, Write (key_event k False), Usleep 50000]"
      by (simp only: event_perform snd_conv) simp
    then show ?thesis by (simp add: emitted_def)
  qed
  from 1 2 3 show ?thesis by simp
qed

theorem sync_event_precedes_key_event_witness:
  "emitted \<lparr>log = [], script = [0, 0, 0, 13], errno = 0\<rparr>
     (snd (event \<lparr>log = [], script = [0, 0, 0, 13], errno = 0\<rparr> KEY_ENTER True)) =
     [sync_event, key_event KEY_ENTER True, sync_event] \<and>
   sync_before False [sync_event, key_event KEY_ENTER True, sync_event] \<and>
   \<not> sync_before False [key_event KEY_ENTER True, sync_event] \<and>
   KEY_ENTER \<noteq> KEY_UNKNOWN \<and>
   emitted \<lparr>log = [], script = [], errno = 0\<rparr>
     (snd (event \<lparr>log = [], script = [], errno = 0\<rparr> KEY_ENTER False)) =
     [sync_event, key_event KEY_ENTER False]"
proof -
  let ?d = "\<lparr>log = [], script = [0, 0, 0, 13], errno = 0\<rparr>"
  let ?z = "\<lparr>log = [], script = [], errno = 0\<rparr>"
  have e: "emitted ?d (snd (event ?d KEY_ENTER True)) =
      [sync_event, key_event KEY_ENTER True, sync_event]"
    by (simp add: event_perform steps_def step_def key_defs write_ev_def usleep_def emitted_def)
  have n: "\<not> sync_before False [key_event KEY_ENTER True, sync_event]"
    by (simp add: key_event_def)
  have k: "KEY_ENTER \<noteq> KEY_UNKNOWN"
    by (simp add: key_defs)
  have s: "\<forall>n\<in>set (script ?z). n = 0"
    by simp
  from sync_event_precedes_key_event [of ?d KEY_ENTER True "\<lparr>bytes = [], faults = []\<rparr>"]
    sync_event_precedes_key_event [of ?z KEY_ENTER True "\<lparr>bytes = [], faults = []\<rparr>"]
    e n k s
  show ?thesis by (simp add: sync_event_def key_event_def EV_SYN_def EV_KEY_def)
qed


end
